theory Spec2Isabelle
  imports Main "HOL-Library.Sublist" "HOL-Library.AList" "HOL-Library.Word"
begin

section \<open>Python strings: the \<open>in\<close> operator and \<open>str.replace\<close>\<close>

text \<open>
  Keys are Python strings. They are modelled as \<^typ>\<open>string\<close>, the UTF-8 bytes of the
  key; the marker is ASCII, and an ASCII byte never occurs inside a multi-byte UTF-8
  sequence, so searching and cutting on bytes agrees with Python's search on code points.

  \<open>sub in s\<close> is the substring test. \<open>s.replace(old, new)\<close> scans \<open>s\<close> from the left,
  replaces each occurrence of \<open>old\<close> it meets and resumes the scan behind the occurrence
  (occurrences never overlap, and text already emitted is not scanned again). For the
  empty \<open>old\<close> Python puts \<open>new\<close> in front of every character and at the end.
\<close>

fun py_in :: "string \<Rightarrow> string \<Rightarrow> bool" where
  "py_in sub [] = (sub = [])"
| "py_in sub (c # cs) = (prefix sub (c # cs) \<or> py_in sub cs)"

fun py_replace :: "string \<Rightarrow> string \<Rightarrow> string \<Rightarrow> string" where
  "py_replace [] new s = new @ concat (map (\<lambda>c. c # new) s)"
| "py_replace (a # as) new [] = []"
| "py_replace (a # as) new (c # cs) =
     (if prefix (a # as) (c # cs)
      then new @ py_replace (a # as) new (drop (length as) cs)
      else c # py_replace (a # as) new cs)"

text \<open>The literal of lines 51, 52, 106 and 107 of the script.\<close>

definition marker :: string where
  "marker = ''._checkpoint_wrapped_module''"

text \<open>The key normalizer is the inline expression \<open>key.replace(marker, "")\<close>.\<close>

definition normalize_key :: "string \<Rightarrow> string" where
  "normalize_key key = py_replace marker [] key"

text \<open>
  A key is \<^emph>\<open>component-wise\<close> when every occurrence of the marker in it is a whole dotted
  path component: the occurrence ends the key or is followed by a dot. This is how the
  training framework inserts the wrapper's attribute name into parameter names.
\<close>

fun componentwise :: "string \<Rightarrow> bool" where
  "componentwise [] = True"
| "componentwise (c # cs) =
     ((prefix marker (c # cs) \<longrightarrow>
         (case drop (length marker) (c # cs) of [] \<Rightarrow> True | d # _ \<Rightarrow> d = CHR ''.''))
      \<and> componentwise cs)"

text \<open>Helpers of the statements about component-wise keys.\<close>

definition wrapped :: string where
  "wrapped = ''_checkpoint_wrapped_module''"

definition dot_or_end :: "string \<Rightarrow> bool" where
  "dot_or_end s = (case s of [] \<Rightarrow> True | d # _ \<Rightarrow> d = CHR ''.'')"


section \<open>Data model\<close>

text \<open>
  A tensor as the container format stores it. The script never looks inside a tensor: it
  reads it with \<open>get_tensor\<close> and hands the same object to \<open>save_file\<close>.
\<close>

record tensor =
  dtype :: string
  shape :: "nat list"
  data :: "8 word list"

text \<open>
  A readable container: its named tensors in the order \<open>f.keys()\<close> enumerates them, and
  the value of \<open>f.metadata()\<close>, which is \<open>None\<close> when the header has no metadata.
  A Python dict is an association list in insertion order; assigning to a key that is
  present overwrites the value in place, assigning to a new key appends
  (\<^const>\<open>AList.update\<close>).
\<close>

record container =
  entries :: "(string \<times> tensor) list"
  metadata :: "(string \<times> string) list option"

text \<open>
  What \<open>json.load\<close> returns. A float is kept as its binary64 bit pattern; the script
  never computes with one.
\<close>

datatype json =
    JNull
  | JBool bool
  | JInt int
  | JFloat "64 word"
  | JStr string
  | JList "json list"
  | JDict "(string \<times> json) list"

text \<open>
  A regular file holds a readable container, a JSON text, or anything else (\<open>Other\<close>:
  bytes that neither reader accepts, such as a truncated file).
\<close>

datatype file_content = Safetensors container | JsonDoc json | Other

text \<open>One constructor per \<open>print\<close> statement of the script; the text of a caught exception is left out.\<close>

datatype msg =
    Processing_safetensors string
  | Renaming string string
  | Error_reading_safetensors
  | No_keys_needed
  | Successfully_updated string
  | Error_saving_safetensors
  | Index_not_found string
  | Processing_index string
  | Error_reading_index
  | Index_rename string string
  | No_index_entries
  | Error_saving_index
  | Directory_missing string
  | No_safetensors_found string
  | Found nat
  | Note_no_index

text \<open>
  The state the script acts on: regular files by path, directories by path with the
  names of their entries in the order the directory scan yields them, and standard output.
\<close>

record world =
  files :: "string \<rightharpoonup> file_content"
  dirs :: "string \<rightharpoonup> string list"
  stdout :: "msg list"

text \<open>The exceptions the script does not catch.\<close>

datatype exn = TypeError | AttributeError | KeyError

text \<open>
  What a write to a path does is given by the environment: it completes, it raises before
  anything is written (permission denied), or it raises part-way (disk full).
\<close>

datatype write_outcome = Write_ok | Write_refused | Write_torn


section \<open>Library calls\<close>

definition print :: "msg \<Rightarrow> world \<Rightarrow> world" where
  "print m w = w\<lparr>stdout := stdout w @ [m]\<rparr>"

text \<open>\<open>os.path.exists\<close> and \<open>Path.exists\<close>.\<close>

definition path_exists :: "world \<Rightarrow> string \<Rightarrow> bool" where
  "path_exists w p = (files w p \<noteq> None \<or> dirs w p \<noteq> None)"

text \<open>
  \<open>pathlib.Path\<close> on a POSIX system. A path is its root (\<open>''\<close>, \<open>/\<close> or \<open>//\<close>) and its
  parts. \<open>Path(s)\<close> splits the root off (\<open>posixpath.splitroot\<close>: exactly two leading
  slashes are kept, one or three and more are one), splits the rest at the slashes and
  drops the empty parts and the parts \<open>.\<close>. \<open>str(p)\<close> is the root followed by the parts
  joined by slashes, and \<open>.\<close> when there is neither. \<open>p / key\<close> is \<open>Path(key)\<close> when
  that has a root, and \<open>p\<close> extended by the parts of \<open>key\<close> otherwise.
\<close>

type_synonym path = "string \<times> string list"

fun split_slash :: "string \<Rightarrow> string list" where
  "split_slash [] = [[]]"
| "split_slash (c # cs) =
     (if c = CHR ''/'' then [] # split_slash cs
      else (case split_slash cs of [] \<Rightarrow> [[c]] | x # xs \<Rightarrow> (c # x) # xs))"

fun join_slash :: "string list \<Rightarrow> string" where
  "join_slash [] = []"
| "join_slash [x] = x"
| "join_slash (x # y # ys) = x @ ''/'' @ join_slash (y # ys)"

definition splitroot :: "string \<Rightarrow> string \<times> string" where
  "splitroot p =
     (if take 1 p \<noteq> ''/'' then ([], p)
      else if take 1 (drop 1 p) \<noteq> ''/'' \<or> take 1 (drop 2 p) = ''/'' then (''/'', drop 1 p)
      else (take 2 p, drop 2 p))"

definition Path :: "string \<Rightarrow> path" where
  "Path s =
     (case splitroot s of
        (root, rel) \<Rightarrow> (root, filter (\<lambda>x. x \<noteq> [] \<and> x \<noteq> ''.'') (split_slash rel)))"

definition path_str :: "path \<Rightarrow> string" where
  "path_str p =
     (case p of (root, parts) \<Rightarrow>
        if root = [] \<and> parts = [] then ''.'' else root @ join_slash parts)"

definition truediv :: "path \<Rightarrow> string \<Rightarrow> path" where
  "truediv p key =
     (case p of (root, parts) \<Rightarrow>
        (case Path key of (r, ps) \<Rightarrow> if r \<noteq> [] then (r, ps) else (root, parts @ ps)))"

text \<open>
  \<open>list(dir_path.glob("*.safetensors"))\<close>: for every entry of the directory whose name
  ends in \<open>.safetensors\<close>, the directory's path extended by that name. A path that is
  no directory has no entries.
\<close>

definition child :: "path \<Rightarrow> string \<Rightarrow> path" where
  "child p name = (case p of (root, parts) \<Rightarrow> (root, parts @ [name]))"

definition glob_safetensors :: "path \<Rightarrow> world \<Rightarrow> path list" where
  "glob_safetensors dir_path w =
     (case dirs w (path_str dir_path) of
        None \<Rightarrow> []
      | Some names \<Rightarrow> map (child dir_path) (filter (suffix ''.safetensors'') names))"

text \<open>
  The reads of lines 42 to 57 (\<open>safe_open\<close>, \<open>metadata\<close>, \<open>keys\<close>, \<open>get_tensor\<close>)
  sit in one \<open>try\<close> block whose handler returns \<open>False\<close> and drops the local state, so
  a file on which any of them raises is a file that is not \<open>Safetensors\<close>:
  \<open>None\<close> is the exception.
\<close>

definition safe_open :: "string \<Rightarrow> world \<Rightarrow> container option" where
  "safe_open file_path w =
     (case files w file_path of Some (Safetensors f) \<Rightarrow> Some f | _ \<Rightarrow> None)"

text \<open>\<open>open(index_path, 'r')\<close> with \<open>json.load\<close>; \<open>None\<close> is the exception.\<close>

definition json_load :: "string \<Rightarrow> world \<Rightarrow> json option" where
  "json_load index_path w =
     (case files w index_path of Some (JsonDoc j) \<Rightarrow> Some j | _ \<Rightarrow> None)"

text \<open>
  A write of \<open>content\<close> through \<open>open(path, 'w')\<close>, which truncates the file it opens: a
  write that raises part-way leaves \<open>Other\<close>. The boolean is False when the write raised.
\<close>

definition write_file :: "(string \<Rightarrow> write_outcome) \<Rightarrow> string \<Rightarrow> file_content \<Rightarrow> world \<Rightarrow> bool \<times> world" where
  "write_file wr path content w =
     (case wr path of
        Write_ok \<Rightarrow> (True, w\<lparr>files := (files w)(path \<mapsto> content)\<rparr>)
      | Write_refused \<Rightarrow> (False, w)
      | Write_torn \<Rightarrow> (False, w\<lparr>files := (files w)(path \<mapsto> Other)\<rparr>))"

text \<open>
  Modelled from the spec: \<open>safetensors.torch.save_file\<close>, the library's writer of
  containers, whose code is not part of the script. The specification (3, 4.2, 9) has the
  write target produced wholesale before it is committed: a write that completes leaves
  at the path the container it was given, and a write that raises, at whatever point,
  leaves the file at the path as it was. The boolean is False when the write raised.
\<close>

definition save_file ::
  "(string \<Rightarrow> write_outcome) \<Rightarrow> (string \<times> tensor) list \<Rightarrow> string \<Rightarrow> (string \<times> string) list \<Rightarrow> world
     \<Rightarrow> bool \<times> world" where
  "save_file wr tensors file_path md w =
     (case wr file_path of
        Write_ok \<Rightarrow>
          (True, w\<lparr>files := (files w)(file_path \<mapsto>
                    Safetensors \<lparr>entries = tensors, metadata = Some md\<rparr>)\<rparr>)
      | Write_refused \<Rightarrow> (False, w)
      | Write_torn \<Rightarrow> (False, w))"

definition json_dump :: "(string \<Rightarrow> write_outcome) \<Rightarrow> json \<Rightarrow> string \<Rightarrow> world \<Rightarrow> bool \<times> world" where
  "json_dump wr index_data index_path w = write_file wr index_path (JsonDoc index_data) w"

text \<open>\<open>key in index_data\<close>, for a string \<open>key\<close>.\<close>

fun json_contains :: "string \<Rightarrow> json \<Rightarrow> exn + bool" where
  "json_contains key (JDict d) = Inr (key \<in> set (map fst d))"
| "json_contains key (JList xs) = Inr (JStr key \<in> set xs)"
| "json_contains key (JStr s) = Inr (py_in key s)"
| "json_contains key JNull = Inl TypeError"
| "json_contains key (JBool b) = Inl TypeError"
| "json_contains key (JInt i) = Inl TypeError"
| "json_contains key (JFloat x) = Inl TypeError"

text \<open>\<open>index_data[key]\<close>, for a string \<open>key\<close>.\<close>

fun json_getitem :: "json \<Rightarrow> string \<Rightarrow> exn + json" where
  "json_getitem (JDict d) key = (case map_of d key of None \<Rightarrow> Inl KeyError | Some v \<Rightarrow> Inr v)"
| "json_getitem (JList xs) key = Inl TypeError"
| "json_getitem (JStr s) key = Inl TypeError"
| "json_getitem JNull key = Inl TypeError"
| "json_getitem (JBool b) key = Inl TypeError"
| "json_getitem (JInt i) key = Inl TypeError"
| "json_getitem (JFloat x) key = Inl TypeError"

text \<open>\<open>value.items()\<close>.\<close>

fun json_items :: "json \<Rightarrow> exn + (string \<times> json) list" where
  "json_items (JDict d) = Inr d"
| "json_items (JList xs) = Inl AttributeError"
| "json_items (JStr s) = Inl AttributeError"
| "json_items JNull = Inl AttributeError"
| "json_items (JBool b) = Inl AttributeError"
| "json_items (JInt i) = Inl AttributeError"
| "json_items (JFloat x) = Inl AttributeError"

text \<open>\<open>index_data[key] = value\<close>, for a string \<open>key\<close>.\<close>

fun json_setitem :: "json \<Rightarrow> string \<Rightarrow> json \<Rightarrow> exn + json" where
  "json_setitem (JDict d) key v = Inr (JDict (AList.update key v d))"
| "json_setitem (JList xs) key v = Inl TypeError"
| "json_setitem (JStr s) key v = Inl TypeError"
| "json_setitem JNull key v = Inl TypeError"
| "json_setitem (JBool b) key v = Inl TypeError"
| "json_setitem (JInt i) key v = Inl TypeError"
| "json_setitem (JFloat x) key v = Inl TypeError"


section \<open>The shard rewriter: \<open>clean_safetensors_file\<close>\<close>

text \<open>
  The loop of lines 47 to 57 over the container's entries, on the local variables
  \<open>tensors\<close> and \<open>keys_modified\<close> and standard output.
\<close>

fun rename_tensors ::
  "(string \<times> tensor) list \<Rightarrow> (string \<times> tensor) list \<times> bool \<times> world
     \<Rightarrow> (string \<times> tensor) list \<times> bool \<times> world" where
  "rename_tensors [] st = st"
| "rename_tensors ((key, tensor) # rest) (tensors, keys_modified, w) =
     (if py_in marker key
      then let new_key = py_replace marker [] key in
           rename_tensors rest
             (AList.update new_key tensor tensors, True, print (Renaming key new_key) w)
      else rename_tensors rest (AList.update key tensor tensors, keys_modified, w))"

text \<open>\<open>f.metadata() or {}\<close>.\<close>

definition metadata_or_empty :: "container \<Rightarrow> (string \<times> string) list" where
  "metadata_or_empty f = (case metadata f of None \<Rightarrow> [] | Some m \<Rightarrow> if m = [] then [] else m)"

definition clean_safetensors_file ::
  "(string \<Rightarrow> write_outcome) \<Rightarrow> string \<Rightarrow> world \<Rightarrow> bool \<times> world" where
  "clean_safetensors_file wr file_path w0 =
     (let w1 = print (Processing_safetensors file_path) w0 in
      case safe_open file_path w1 of
        None \<Rightarrow> (False, print Error_reading_safetensors w1)
      | Some f \<Rightarrow>
          (case rename_tensors (entries f) ([], False, w1) of
             (tensors, keys_modified, w2) \<Rightarrow>
               if \<not> keys_modified then (False, print No_keys_needed w2)
               else (case save_file wr tensors file_path (metadata_or_empty f) w2 of
                       (True, w3) \<Rightarrow> (True, print (Successfully_updated file_path) w3)
                     | (False, w3) \<Rightarrow> (False, print Error_saving_safetensors w3))))"


section \<open>The manifest rewriter: \<open>update_index_json\<close>\<close>

text \<open>The loop of lines 105 to 112 over the items of the weight map.\<close>

fun rename_index ::
  "(string \<times> json) list \<Rightarrow> (string \<times> json) list \<times> bool \<times> world
     \<Rightarrow> (string \<times> json) list \<times> bool \<times> world" where
  "rename_index [] st = st"
| "rename_index ((key, filename) # rest) (new_weight_map, modified, w) =
     (if py_in marker key
      then let new_key = py_replace marker [] key in
           rename_index rest
             (AList.update new_key filename new_weight_map, True, print (Index_rename key new_key) w)
      else rename_index rest (AList.update key filename new_weight_map, modified, w))"

text \<open>
  Lines 100 to 113. Nothing here is inside a \<open>try\<close>: an exception leaves the function,
  here with the world at that moment.
\<close>

definition rewrite_weight_map :: "json \<Rightarrow> world \<Rightarrow> (exn \<times> world) + (json \<times> bool \<times> world)" where
  "rewrite_weight_map index_data w =
     (case json_contains ''weight_map'' index_data of
        Inl e \<Rightarrow> Inl (e, w)
      | Inr False \<Rightarrow> Inr (index_data, False, w)
      | Inr True \<Rightarrow>
          (case json_getitem index_data ''weight_map'' of
             Inl e \<Rightarrow> Inl (e, w)
           | Inr weight_map \<Rightarrow>
               (case json_items weight_map of
                  Inl e \<Rightarrow> Inl (e, w)
                | Inr items \<Rightarrow>
                    (case rename_index items ([], False, w) of
                       (new_weight_map, modified, w') \<Rightarrow>
                         (case json_setitem index_data ''weight_map'' (JDict new_weight_map) of
                            Inl e \<Rightarrow> Inl (e, w')
                          | Inr index_data' \<Rightarrow> Inr (index_data', modified, w'))))))"

definition update_index_json ::
  "(string \<Rightarrow> write_outcome) \<Rightarrow> string \<Rightarrow> world \<Rightarrow> (exn \<times> world) + (bool \<times> world)" where
  "update_index_json wr index_path w0 =
     (if \<not> path_exists w0 index_path
      then Inr (False, print (Index_not_found index_path) w0)
      else
        let w1 = print (Processing_index index_path) w0 in
        case json_load index_path w1 of
          None \<Rightarrow> Inr (False, print Error_reading_index w1)
        | Some index_data \<Rightarrow>
            (case rewrite_weight_map index_data w1 of
               Inl e \<Rightarrow> Inl e
             | Inr (index_data', modified, w2) \<Rightarrow>
                 if \<not> modified then Inr (False, print No_index_entries w2)
                 else (case json_dump wr index_data' index_path w2 of
                         (True, w3) \<Rightarrow> Inr (True, print (Successfully_updated index_path) w3)
                       | (False, w3) \<Rightarrow> Inr (False, print Error_saving_index w3))))"


section \<open>Directory mode: \<open>process_directory\<close>\<close>

text \<open>The loop of lines 152 to 155.\<close>

fun clean_each :: "(string \<Rightarrow> write_outcome) \<Rightarrow> string list \<Rightarrow> bool \<times> world \<Rightarrow> bool \<times> world" where
  "clean_each wr [] st = st"
| "clean_each wr (file_path # rest) (any_modified, w) =
     (case clean_safetensors_file wr file_path w of
        (True, w') \<Rightarrow> clean_each wr rest (True, w')
      | (False, w') \<Rightarrow> clean_each wr rest (any_modified, w'))"

definition process_directory ::
  "(string \<Rightarrow> write_outcome) \<Rightarrow> string \<Rightarrow> world \<Rightarrow> (exn \<times> world) + world" where
  "process_directory wr directory w0 =
     (let dir_path = Path directory in
      if \<not> path_exists w0 (path_str dir_path)
      then Inr (print (Directory_missing directory) w0)
      else
        let safetensors_files = glob_safetensors dir_path w0 in
        if safetensors_files = [] then Inr (print (No_safetensors_found directory) w0)
        else
          let w1 = print (Found (length safetensors_files)) w0 in
          case clean_each wr (map path_str safetensors_files) (False, w1) of
            (any_modified, w2) \<Rightarrow>
              let index_path = truediv dir_path ''model.index.json'' in
              if any_modified \<and> path_exists w2 (path_str index_path)
              then (case update_index_json wr (path_str index_path) w2 of
                      Inl e \<Rightarrow> Inl e
                    | Inr (_, w3) \<Rightarrow> Inr w3)
              else if any_modified then Inr (print Note_no_index w2)
              else Inr w2)"

text \<open>The world a run ends in, and what it printed since \<open>w\<close>.\<close>

fun world_after :: "(exn \<times> world) + world \<Rightarrow> world" where
  "world_after (Inl (e, w)) = w"
| "world_after (Inr w) = w"






text \<open>The world the manifest rewriter ends in, whether it returns or raises.\<close>

fun index_world :: "(exn \<times> world) + (bool \<times> world) \<Rightarrow> world" where
  "index_world (Inl (e, w)) = w"
| "index_world (Inr (b, w)) = w"

text \<open>The weight map of the manifest at a path (empty when there is none).\<close>

definition weight_map_at :: "world \<Rightarrow> string \<Rightarrow> (string \<times> json) list" where
  "weight_map_at w p =
     (case files w p of
        Some (JsonDoc (JDict d)) \<Rightarrow>
          (case map_of d ''weight_map'' of Some (JDict wm) \<Rightarrow> wm | _ \<Rightarrow> [])
      | _ \<Rightarrow> [])"

text \<open>
  For a directory run: the manifest path (line 158), the container paths in the order
  of the loop (lines 143 and 154), whether the shard rewriter reports some container of
  the directory as modified, and the world after the loop over the containers.
\<close>

definition index_of :: "string \<Rightarrow> string" where
  "index_of directory = path_str (truediv (Path directory) ''model.index.json'')"





section \<open>Example files\<close>

text \<open>Two tensors, the environments in which every write completes and in which every
  write raises part-way, and four containers.\<close>

definition t1 :: tensor where
  "t1 = \<lparr>dtype = ''F32'', shape = [2], data = [0, 0, 128, 63, 0, 0, 0, 64]\<rparr>"

definition t2 :: tensor where
  "t2 = \<lparr>dtype = ''F16'', shape = [1, 1], data = [0, 60]\<rparr>"

definition all_ok :: "string \<Rightarrow> write_outcome" where
  "all_ok p = Write_ok"

definition all_torn :: "string \<Rightarrow> write_outcome" where
  "all_torn p = Write_torn"

definition shard_a :: container where
  "shard_a = \<lparr>entries = [(''layer.0._checkpoint_wrapped_module.weight'', t1),
                          (''layer.1.weight'', t2)],
              metadata = Some [(''format'', ''pt'')]\<rparr>"

definition shard_b :: container where
  "shard_b = \<lparr>entries = [(''a.weight'', t1)], metadata = None\<rparr>"

definition shard_c :: container where
  "shard_c = \<lparr>entries = [(''x._checkpoint_wrapped_module'', t1), (''x'', t2)],
              metadata = None\<rparr>"

definition shard_d :: container where
  "shard_d = \<lparr>entries = [(''._checkpoint_wrapped_module'', t1)], metadata = None\<rparr>"

text \<open>Four manifests (one naming a wrapped key, one whose keys collide once normalized,
  one without a weight map, one with nothing to rename) and a world of five directories
  holding the containers, the manifests and a manifest file that is just \<open>null\<close>.\<close>

definition index_m :: json where
  "index_m = JDict [(''metadata'', JDict [(''total_size'', JInt 10)]),
                    (''weight_map'',
                     JDict [(''layer.0._checkpoint_wrapped_module.weight'', JStr ''a.safetensors''),
                            (''layer.1.weight'', JStr ''a.safetensors''),
                            (''a.weight'', JStr ''b.safetensors'')])]"

definition index_x :: json where
  "index_x = JDict [(''weight_map'',
                     JDict [(''x._checkpoint_wrapped_module'', JStr ''c.safetensors''),
                            (''x'', JStr ''d.safetensors'')])]"

definition index_n :: json where
  "index_n = JDict [(''metadata'', JDict [(''total_size'', JInt 8)])]"

definition index_q :: json where
  "index_q = JDict [(''weight_map'', JDict [(''a.weight'', JStr ''b.safetensors'')])]"

definition demo :: world where
  "demo = \<lparr>files = [''m/a.safetensors'' \<mapsto> Safetensors shard_a,
                     ''m/b.safetensors'' \<mapsto> Safetensors shard_b,
                     ''m/model.index.json'' \<mapsto> JsonDoc index_m,
                     ''x/c.safetensors'' \<mapsto> Safetensors shard_c,
                     ''x/d.safetensors'' \<mapsto> Safetensors shard_d,
                     ''x/model.index.json'' \<mapsto> JsonDoc index_x,
                     ''n/model.index.json'' \<mapsto> JsonDoc index_n,
                     ''q/model.index.json'' \<mapsto> JsonDoc index_q,
                     ''z/model.index.json'' \<mapsto> JsonDoc JNull],
            dirs = [''m'' \<mapsto> [''a.safetensors'', ''b.safetensors'', ''model.index.json''],
                    ''x'' \<mapsto> [''c.safetensors'', ''d.safetensors'', ''model.index.json''],
                    ''n'' \<mapsto> [''model.index.json''],
                    ''q'' \<mapsto> [''model.index.json''],
                    ''z'' \<mapsto> [''model.index.json'']],
            stdout = []\<rparr>"


section \<open>Properties of the key normalizer\<close>

text \<open>\<^const>\<open>py_in\<close> is the substring relation of the library.\<close>

lemma py_in_sublist: "py_in sub s \<longleftrightarrow> sublist sub s"
  by (induction s) (auto simp: sublist_Cons_right)

lemma py_replace_absent:
  "\<not> py_in (a # as) s \<Longrightarrow> py_replace (a # as) new s = s"
  by (induction s) auto

lemma length_py_replace_le:
  "length (py_replace (a # as) [] s) \<le> length s"
proof (induction s rule: length_induct)
  case (1 s)
  show ?case
  proof (cases s)
    case Nil
    then show ?thesis by simp
  next
    case (Cons c cs)
    have ih: "length ys < length s \<Longrightarrow> length (py_replace (a # as) [] ys) \<le> length ys" for ys
      using 1 by blast
    have "length (py_replace (a # as) [] (drop (length as) cs)) \<le> length (drop (length as) cs)"
      by (rule ih) (simp add: Cons)
    then have "length (py_replace (a # as) [] (drop (length as) cs)) \<le> length cs"
      by simp
    moreover have "length (py_replace (a # as) [] cs) \<le> length cs"
      by (rule ih) (simp add: Cons)
    ultimately show ?thesis using Cons by auto
  qed
qed

lemma length_py_replace_less:
  "py_in (a # as) s \<Longrightarrow> length (py_replace (a # as) [] s) < length s"
proof (induction s)
  case Nil
  then show ?case by simp
next
  case (Cons c cs)
  show ?case
  proof (cases "prefix (a # as) (c # cs)")
    case True
    have "length (py_replace (a # as) [] (drop (length as) cs)) \<le> length (drop (length as) cs)"
      by (rule length_py_replace_le)
    with True show ?thesis by simp
  next
    case False
    with Cons.prems have "py_in (a # as) cs" by auto
    with Cons.IH have "length (py_replace (a # as) [] cs) < length cs" by simp
    with False show ?thesis by auto
  qed
qed


lemma marker_Cons: "marker = CHR ''.'' # wrapped"
  by (simp add: marker_def wrapped_def)

lemma dot_notin_wrapped: "CHR ''.'' \<notin> set wrapped"
  by (simp add: wrapped_def)

lemma normalize_Nil: "normalize_key [] = []"
  by (simp add: normalize_key_def marker_Cons)

lemma normalize_Cons:
  "normalize_key (c # cs) =
     (if prefix marker (c # cs) then normalize_key (drop (length wrapped) cs)
      else c # normalize_key cs)"
  by (simp add: normalize_key_def marker_Cons)

lemma componentwise_drop: "componentwise s \<Longrightarrow> componentwise (drop n s)"
proof (induction s arbitrary: n)
  case Nil
  then show ?case by simp
next
  case (Cons c cs)
  then show ?case by (cases n) simp_all
qed

lemma componentwise_after:
  "componentwise (c # cs) \<Longrightarrow> prefix marker (c # cs) \<Longrightarrow> dot_or_end (drop (length wrapped) cs)"
  by (simp add: dot_or_end_def marker_Cons)

lemma normalize_dot_or_end:
  "componentwise s \<Longrightarrow> dot_or_end s \<Longrightarrow> dot_or_end (normalize_key s)"
proof (induction s rule: length_induct)
  case (1 s)
  show ?case
  proof (cases s)
    case Nil
    then show ?thesis by (simp add: normalize_Nil dot_or_end_def)
  next
    case (Cons c cs)
    show ?thesis
    proof (cases "prefix marker (c # cs)")
      case True
      let ?r = "drop (length wrapped) cs"
      have "length ?r < length s" using Cons by simp
      moreover have "componentwise ?r"
        using "1.prems"(1) Cons componentwise_drop [of cs "length wrapped"] by simp
      moreover have "dot_or_end ?r"
        using "1.prems"(1) Cons True componentwise_after [of c cs] by blast
      ultimately have "dot_or_end (normalize_key ?r)" using "1.IH" by blast
      then show ?thesis using Cons True by (simp add: normalize_Cons)
    next
      case False
      then show ?thesis using Cons "1.prems"(2) by (simp add: normalize_Cons dot_or_end_def)
    qed
  qed
qed

lemma prefix_normalize_back:
  "CHR ''.'' \<notin> set v \<Longrightarrow> componentwise s \<Longrightarrow> prefix v (normalize_key s) \<Longrightarrow> prefix v s"
proof (induction s arbitrary: v)
  case Nil
  then show ?case by (simp add: normalize_Nil)
next
  case (Cons c cs)
  show ?case
  proof (cases v)
    case Nil
    then show ?thesis by simp
  next
    case v: (Cons x v')
    show ?thesis
    proof (cases "prefix marker (c # cs)")
      case True
      let ?r = "drop (length wrapped) cs"
      have "componentwise ?r"
        using Cons.prems(2) componentwise_drop [of cs "length wrapped"] by simp
      moreover have "dot_or_end ?r"
        using Cons.prems(2) True by (rule componentwise_after)
      ultimately have "dot_or_end (normalize_key ?r)" by (rule normalize_dot_or_end)
      moreover have "prefix (x # v') (normalize_key ?r)"
        using Cons.prems(3) True v by (simp add: normalize_Cons)
      ultimately have "x = CHR ''.''"
        by (cases "normalize_key ?r") (simp_all add: dot_or_end_def)
      then show ?thesis using Cons.prems(1) v by simp
    next
      case False
      then have "x = c" and "prefix v' (normalize_key cs)"
        using Cons.prems(3) v by (simp_all add: normalize_Cons)
      moreover have "prefix v' cs"
        using Cons.IH [of v'] Cons.prems(1,2) v \<open>prefix v' (normalize_key cs)\<close> by simp
      ultimately show ?thesis using v by simp
    qed
  qed
qed

lemma normalize_componentwise_clean:
  "componentwise s \<Longrightarrow> \<not> py_in marker (normalize_key s)"
proof (induction s rule: length_induct)
  case (1 s)
  show ?case
  proof (cases s)
    case Nil
    then show ?thesis by (simp add: normalize_Nil marker_Cons)
  next
    case (Cons c cs)
    show ?thesis
    proof (cases "prefix marker (c # cs)")
      case True
      let ?r = "drop (length wrapped) cs"
      have "length ?r < length s" using Cons by simp
      moreover have "componentwise ?r"
        using "1.prems" Cons componentwise_drop [of cs "length wrapped"] by simp
      ultimately have "\<not> py_in marker (normalize_key ?r)" using "1.IH" by blast
      then show ?thesis using Cons True by (simp add: normalize_Cons)
    next
      case False
      have cs: "componentwise cs" using "1.prems" Cons by simp
      have "length cs < length s" using Cons by simp
      then have tail: "\<not> py_in marker (normalize_key cs)" using "1.IH" cs by blast
      have "\<not> prefix marker (c # normalize_key cs)"
      proof
        assume "prefix marker (c # normalize_key cs)"
        then have c: "c = CHR ''.''" and "prefix wrapped (normalize_key cs)"
          by (simp_all add: marker_Cons)
        then have "prefix wrapped cs"
          using prefix_normalize_back [OF dot_notin_wrapped cs] by blast
        with c False show False by (simp add: marker_Cons)
      qed
      with tail show ?thesis using Cons False by (simp add: normalize_Cons)
    qed
  qed
qed

lemma normalize_absent: "\<not> py_in marker k \<Longrightarrow> normalize_key k = k"
  by (simp add: normalize_key_def marker_Cons py_replace_absent)

lemma normalize_shorter: "py_in marker k \<Longrightarrow> length (normalize_key k) < length k"
  by (simp add: normalize_key_def marker_Cons length_py_replace_less)

lemma normalize_twice_iff:
  "normalize_key (normalize_key k) = normalize_key k \<longleftrightarrow> \<not> py_in marker (normalize_key k)"
  using normalize_absent [of "normalize_key k"] normalize_shorter [of "normalize_key k"] by auto


text \<open>
  C1 (as amended). Normalizing twice gives the result of normalizing once exactly when
  the result of normalizing once holds no occurrence of the marker; this is so for every
  component-wise key. (It is not so for every key: removing an occurrence can join the
  text on its two sides into a new occurrence, which the single scan does not see.)
\<close>

theorem normalize_idempotent_iff_clean:
  "(normalize_key (normalize_key k) = normalize_key k \<longleftrightarrow> \<not> py_in marker (normalize_key k)) \<and>
   (componentwise k \<longrightarrow> normalize_key (normalize_key k) = normalize_key k)"
  using normalize_twice_iff [of k] normalize_componentwise_clean [of k] by blast

theorem normalize_idempotent_iff_clean_witness:
  "componentwise ''layer.0._checkpoint_wrapped_module.weight'' \<and>
   normalize_key (normalize_key ''layer.0._checkpoint_wrapped_module.weight'') =
     normalize_key ''layer.0._checkpoint_wrapped_module.weight''"
proof -
  have c: "componentwise ''layer.0._checkpoint_wrapped_module.weight''"
    by (simp add: marker_def)
  with normalize_idempotent_iff_clean [of "''layer.0._checkpoint_wrapped_module.weight''"]
  show ?thesis by blast
qed

text \<open>
  C1 as stated fails: the key below normalizes to the marker itself, which normalizes to
  the empty key.
\<close>

theorem normalize_not_idempotent:
  "normalize_key (normalize_key ''._checkpoint_wrapped._checkpoint_wrapped_module_module'') \<noteq>
   normalize_key ''._checkpoint_wrapped._checkpoint_wrapped_module_module''"
  by (simp add: normalize_key_def marker_def)

text \<open>
  C2 (as amended). For every component-wise key, a key in which each occurrence of the
  marker ends the key or is followed by a dot, the normalized key holds no occurrence of
  the marker.
\<close>

theorem normalize_removes_marker:
  "componentwise k \<Longrightarrow> \<not> py_in marker (normalize_key k)"
  by (rule normalize_componentwise_clean)

theorem normalize_removes_marker_witness:
  "componentwise ''a._checkpoint_wrapped_module.b._checkpoint_wrapped_module'' \<and>
   \<not> py_in marker (normalize_key ''a._checkpoint_wrapped_module.b._checkpoint_wrapped_module'')"
proof -
  have c: "componentwise ''a._checkpoint_wrapped_module.b._checkpoint_wrapped_module''"
    by (simp add: marker_def)
  with normalize_removes_marker [OF c] show ?thesis by blast
qed

text \<open>C2 as stated fails: the normalized form of this key is the marker.\<close>

theorem normalize_leaves_marker:
  "py_in marker (normalize_key ''._checkpoint_wrapped._checkpoint_wrapped_module_module'')"
  by (simp add: normalize_key_def marker_def)


section \<open>Properties of the shard rewriter\<close>

subsection \<open>Printing and the rename loop\<close>

lemma files_print [simp]: "files (print m w) = files w"
  by (simp add: print_def)

lemma dirs_print [simp]: "dirs (print m w) = dirs w"
  by (simp add: print_def)

lemma stdout_print [simp]: "stdout (print m w) = stdout w @ [m]"
  by (simp add: print_def)

lemma path_exists_print [simp]: "path_exists (print m w) p = path_exists w p"
  by (simp add: path_exists_def)

lemma new_key_normalize:
  "(if py_in marker key then py_replace marker [] key else key) = normalize_key key"
  using normalize_absent [of key] by (simp add: normalize_key_def)

lemma rename_tensors_step:
  "rename_tensors ((key, tensor) # rest) (tensors, keys_modified, w) =
     rename_tensors rest
       (AList.update (normalize_key key) tensor tensors,
        keys_modified \<or> py_in marker key,
        if py_in marker key then print (Renaming key (normalize_key key)) w else w)"
  using normalize_absent [of key] by (simp add: normalize_key_def Let_def)

lemma rename_tensors_map:
  "map_of (fst (rename_tensors es (acc, km, w))) =
     map_of (rev (map (\<lambda>(k, t). (normalize_key k, t)) es) @ acc)"
proof (induction es arbitrary: acc km w)
  case Nil
  then show ?case by simp
next
  case (Cons e es)
  obtain k t where e: "e = (k, t)" by (cases e)
  show ?case
    unfolding e rename_tensors_step Cons.IH
    by (simp add: update_conv')
qed

lemma rename_tensors_flag:
  "fst (snd (rename_tensors es (acc, km, w))) = (km \<or> (\<exists>k \<in> fst ` set es. py_in marker k))"
proof (induction es arbitrary: acc km w)
  case Nil
  then show ?case by simp
next
  case (Cons e es)
  obtain k t where e: "e = (k, t)" by (cases e)
  show ?case
    unfolding e rename_tensors_step Cons.IH by auto
qed

lemma rename_tensors_files:
  "files (snd (snd (rename_tensors es (acc, km, w)))) = files w"
proof (induction es arbitrary: acc km w)
  case Nil
  then show ?case by simp
next
  case (Cons e es)
  obtain k t where e: "e = (k, t)" by (cases e)
  show ?case
    unfolding e rename_tensors_step Cons.IH by simp
qed

lemma rename_tensors_dirs:
  "dirs (snd (snd (rename_tensors es (acc, km, w)))) = dirs w"
proof (induction es arbitrary: acc km w)
  case Nil
  then show ?case by simp
next
  case (Cons e es)
  obtain k t where e: "e = (k, t)" by (cases e)
  show ?case
    unfolding e rename_tensors_step Cons.IH by simp
qed


lemma rename_tensors_keys:
  "fst ` set (fst (rename_tensors es ([], km, w))) = normalize_key ` fst ` set es"
proof -
  have "dom (map_of (fst (rename_tensors es ([], km, w)))) =
        dom (map_of (rev (map (\<lambda>(k, t). (normalize_key k, t)) es)))"
    by (simp add: rename_tensors_map)
  then show ?thesis
    by (simp add: dom_map_of_conv_image_fst image_image case_prod_unfold)
qed

lemma map_of_rev_last:
  "normalize_key k \<notin> normalize_key ` fst ` set ys \<Longrightarrow>
   map_of (rev (map (\<lambda>(k, t). (normalize_key k, t)) (xs @ (k, t) # ys))) (normalize_key k) = Some t"
proof -
  assume a: "normalize_key k \<notin> normalize_key ` fst ` set ys"
  have "map_of (rev (map (\<lambda>(k, t). (normalize_key k, t)) ys)) (normalize_key k) = None"
    using a by (force simp: map_of_eq_None_iff image_image case_prod_unfold)
  then show ?thesis
    by (simp add: map_add_def)
qed

lemma map_of_rev_origin:
  "map_of (rev (map (\<lambda>(k, t). (normalize_key k, t)) es)) k' = Some t \<Longrightarrow>
   \<exists>k. (k, t) \<in> set es \<and> normalize_key k = k'"
  by (drule map_of_SomeD) auto


lemma safe_open_print [simp]: "safe_open p (print m w) = safe_open p w"
  by (simp add: safe_open_def)

lemma json_load_print [simp]: "json_load p (print m w) = json_load p w"
  by (simp add: json_load_def)

lemma safe_open_Some: "safe_open p w = Some f \<longleftrightarrow> files w p = Some (Safetensors f)"
  by (auto simp: safe_open_def split: option.splits file_content.splits)

lemma clean_unreadable:
  "safe_open p w = None \<Longrightarrow>
   clean_safetensors_file wr p w =
     (False, print Error_reading_safetensors (print (Processing_safetensors p) w))"
  by (simp add: clean_safetensors_file_def)

lemma clean_readable:
  assumes "safe_open p w = Some f"
  shows "clean_safetensors_file wr p w =
     (let r = rename_tensors (entries f) ([], False, print (Processing_safetensors p) w);
          w2 = snd (snd r) in
      if \<not> fst (snd r) then (False, print No_keys_needed w2)
      else (case wr p of
              Write_ok \<Rightarrow>
                (True, print (Successfully_updated p)
                   (w2\<lparr>files := (files w2)(p \<mapsto>
                      Safetensors \<lparr>entries = fst r, metadata = Some (metadata_or_empty f)\<rparr>)\<rparr>))
            | Write_refused \<Rightarrow> (False, print Error_saving_safetensors w2)
            | Write_torn \<Rightarrow> (False, print Error_saving_safetensors w2)))"
  using assms
  by (simp add: clean_safetensors_file_def save_file_def Let_def
      split: prod.splits write_outcome.splits)

lemma clean_reports_iff:
  "fst (clean_safetensors_file wr p w) \<longleftrightarrow>
     (\<exists>f. files w p = Some (Safetensors f) \<and> (\<exists>k \<in> fst ` set (entries f). py_in marker k)
          \<and> wr p = Write_ok)"
proof (cases "safe_open p w")
  case None
  then have "\<not> (\<exists>f. files w p = Some (Safetensors f))"
    using safe_open_Some [of p w] by auto
  with None show ?thesis by (simp add: clean_unreadable)
next
  case (Some f)
  then have "files w p = Some (Safetensors f)" by (simp add: safe_open_Some)
  then show ?thesis
    by (simp add: clean_readable [OF Some] Let_def rename_tensors_flag split: write_outcome.splits)
qed

lemma clean_dirs [simp]: "dirs (snd (clean_safetensors_file wr p w)) = dirs w"
proof (cases "safe_open p w")
  case None
  then show ?thesis by (simp add: clean_unreadable)
next
  case (Some f)
  show ?thesis
    by (simp add: clean_readable [OF Some] Let_def rename_tensors_dirs split: write_outcome.splits)
qed

lemma clean_files_other:
  "q \<noteq> p \<Longrightarrow> files (snd (clean_safetensors_file wr p w)) q = files w q"
proof (cases "safe_open p w")
  case None
  then show ?thesis by (simp add: clean_unreadable)
next
  case (Some f)
  assume "q \<noteq> p"
  then show ?thesis
    by (simp add: clean_readable [OF Some] Let_def rename_tensors_files split: write_outcome.splits)
qed

lemma clean_files_dom:
  "(files (snd (clean_safetensors_file wr p w)) q = None) = (files w q = None)"
proof (cases "safe_open p w")
  case None
  then show ?thesis by (simp add: clean_unreadable)
next
  case (Some f)
  then have "files w p = Some (Safetensors f)" by (simp add: safe_open_Some)
  then show ?thesis
    by (simp add: clean_readable [OF Some] Let_def rename_tensors_files split: write_outcome.splits)
qed

lemma clean_path_exists [simp]:
  "path_exists (snd (clean_safetensors_file wr p w)) q = path_exists w q"
  by (simp add: path_exists_def clean_files_dom)



lemma rename_tensors_distinct:
  "distinct (map fst acc) \<Longrightarrow> distinct (map fst (fst (rename_tensors es (acc, km, w))))"
proof (induction es arbitrary: acc km w)
  case Nil
  then show ?case by simp
next
  case (Cons e es)
  obtain k t where e: "e = (k, t)" by (cases e)
  show ?case
    unfolding e rename_tensors_step
    by (rule Cons.IH) (simp add: distinct_update Cons.prems)
qed

lemma metadata_or_empty_Some: "metadata f = Some m \<Longrightarrow> metadata_or_empty f = m"
  by (simp add: metadata_or_empty_def)

lemma clean_rewritten:
  assumes "fst (clean_safetensors_file wr p w)"
  shows "\<exists>f. files w p = Some (Safetensors f) \<and>
           files (snd (clean_safetensors_file wr p w)) p =
             Some (Safetensors
               \<lparr>entries = fst (rename_tensors (entries f) ([], False, print (Processing_safetensors p) w)),
                metadata = Some (metadata_or_empty f)\<rparr>)"
proof -
  obtain f where f: "files w p = Some (Safetensors f)"
      and k: "\<exists>k \<in> fst ` set (entries f). py_in marker k" and ok: "wr p = Write_ok"
    using assms clean_reports_iff [of wr p w] by blast
  have "safe_open p w = Some f" using f by (simp add: safe_open_Some)
  then have "files (snd (clean_safetensors_file wr p w)) p =
             Some (Safetensors
               \<lparr>entries = fst (rename_tensors (entries f) ([], False, print (Processing_safetensors p) w)),
                metadata = Some (metadata_or_empty f)\<rparr>)"
    using k ok by (simp add: clean_readable Let_def rename_tensors_flag)
  with f show ?thesis by blast
qed


text \<open>
  C3. When the shard rewriter reports a rewrite, the path holds a container whose key set
  is the set of normalized original keys, each key once; every tensor stored in it is
  the tensor of an original key with that normalized form (the one enumerated last;
  every original entry with no later entry of the same normalized key survives); the
  metadata mapping is the original one, an absent mapping counting as the empty one
  (\<open>f.metadata() or {}\<close>); and no other file changes.
\<close>

theorem clean_safetensors_file_keeps_payloads:
  assumes "clean_safetensors_file wr file_path w = (True, w')"
  shows "\<exists>f f'. files w file_path = Some (Safetensors f) \<and>
           files w' file_path = Some (Safetensors f') \<and>
           fst ` set (entries f') = normalize_key ` fst ` set (entries f) \<and>
           distinct (map fst (entries f')) \<and>
           (\<forall>k' t. map_of (entries f') k' = Some t \<longrightarrow>
                 (\<exists>k. (k, t) \<in> set (entries f) \<and> normalize_key k = k')) \<and>
           (\<forall>xs k t ys. entries f = xs @ (k, t) # ys \<and> normalize_key k \<notin> normalize_key ` fst ` set ys \<longrightarrow>
                 map_of (entries f') (normalize_key k) = Some t) \<and>
           metadata_or_empty f' = metadata_or_empty f \<and>
           (\<forall>m. metadata f = Some m \<longrightarrow> metadata f' = Some m) \<and>
           (\<forall>p. p \<noteq> file_path \<longrightarrow> files w' p = files w p)"
proof -
  let ?w1 = "print (Processing_safetensors file_path) w"
  have r: "fst (clean_safetensors_file wr file_path w)"
    and w': "w' = snd (clean_safetensors_file wr file_path w)"
    using assms by simp_all
  obtain f where f: "files w file_path = Some (Safetensors f)"
    and f': "files w' file_path =
      Some (Safetensors \<lparr>entries = fst (rename_tensors (entries f) ([], False, ?w1)),
                         metadata = Some (metadata_or_empty f)\<rparr>)"
    using clean_rewritten [OF r] w' by blast
  let ?es = "fst (rename_tensors (entries f) ([], False, ?w1))"
  let ?f' = "\<lparr>entries = ?es, metadata = Some (metadata_or_empty f)\<rparr>"
  have m: "map_of ?es = map_of (rev (map (\<lambda>(k, t). (normalize_key k, t)) (entries f)))"
    by (simp add: rename_tensors_map)
  have 1: "fst ` set (entries ?f') = normalize_key ` fst ` set (entries f)"
    by (simp add: rename_tensors_keys)
  have 2: "distinct (map fst (entries ?f'))"
    by (simp add: rename_tensors_distinct)
  have 3: "\<forall>k' t. map_of (entries ?f') k' = Some t \<longrightarrow>
                 (\<exists>k. (k, t) \<in> set (entries f) \<and> normalize_key k = k')"
    by (auto simp: m dest: map_of_rev_origin)
  have 4: "\<forall>xs k t ys. entries f = xs @ (k, t) # ys \<and> normalize_key k \<notin> normalize_key ` fst ` set ys \<longrightarrow>
                 map_of (entries ?f') (normalize_key k) = Some t"
  proof (intro allI impI)
    fix xs k t ys
    assume a: "entries f = xs @ (k, t) # ys \<and> normalize_key k \<notin> normalize_key ` fst ` set ys"
    have "map_of (entries ?f') (normalize_key k) =
          map_of (rev (map (\<lambda>(k, t). (normalize_key k, t)) (xs @ (k, t) # ys))) (normalize_key k)"
      using a m by simp
    then show "map_of (entries ?f') (normalize_key k) = Some t"
      using a map_of_rev_last [of k ys xs t] by simp
  qed
  have 5: "metadata_or_empty ?f' = metadata_or_empty f"
    by (simp add: metadata_or_empty_def)
  have 6: "\<forall>m. metadata f = Some m \<longrightarrow> metadata ?f' = Some m"
    by (simp add: metadata_or_empty_Some)
  have 7: "\<forall>p. p \<noteq> file_path \<longrightarrow> files w' p = files w p"
    using clean_files_other [of _ file_path wr w] w' by simp
  from f f' 1 2 3 4 5 6 7 show ?thesis by blast
qed

lemmas run_defs =
  clean_safetensors_file_def safe_open_def save_file_def
  metadata_or_empty_def marker_def Let_def

theorem clean_safetensors_file_keeps_payloads_witness:
  "clean_safetensors_file all_ok ''m/a.safetensors'' demo =
     (True, snd (clean_safetensors_file all_ok ''m/a.safetensors'' demo)) \<and>
   (\<exists>f f'. files demo ''m/a.safetensors'' = Some (Safetensors f) \<and>
      files (snd (clean_safetensors_file all_ok ''m/a.safetensors'' demo)) ''m/a.safetensors''
        = Some (Safetensors f') \<and>
      fst ` set (entries f') = normalize_key ` fst ` set (entries f) \<and>
      distinct (map fst (entries f')) \<and>
      (\<forall>k' t. map_of (entries f') k' = Some t \<longrightarrow>
         (\<exists>k. (k, t) \<in> set (entries f) \<and> normalize_key k = k')) \<and>
      (\<forall>xs k t ys. entries f = xs @ (k, t) # ys \<and>
           normalize_key k \<notin> normalize_key ` fst ` set ys \<longrightarrow>
         map_of (entries f') (normalize_key k) = Some t) \<and>
      metadata_or_empty f' = metadata_or_empty f \<and>
      (\<forall>m. metadata f = Some m \<longrightarrow> metadata f' = Some m) \<and>
      (\<forall>p. p \<noteq> ''m/a.safetensors'' \<longrightarrow>
         files (snd (clean_safetensors_file all_ok ''m/a.safetensors'' demo)) p = files demo p))"
proof (rule conjI)
  show h: "clean_safetensors_file all_ok ''m/a.safetensors'' demo =
     (True, snd (clean_safetensors_file all_ok ''m/a.safetensors'' demo))"
    by (rule prod_eqI) (simp_all add: run_defs demo_def shard_a_def all_ok_def)
  show "\<exists>f f'. files demo ''m/a.safetensors'' = Some (Safetensors f) \<and>
      files (snd (clean_safetensors_file all_ok ''m/a.safetensors'' demo)) ''m/a.safetensors''
        = Some (Safetensors f') \<and>
      fst ` set (entries f') = normalize_key ` fst ` set (entries f) \<and>
      distinct (map fst (entries f')) \<and>
      (\<forall>k' t. map_of (entries f') k' = Some t \<longrightarrow>
         (\<exists>k. (k, t) \<in> set (entries f) \<and> normalize_key k = k')) \<and>
      (\<forall>xs k t ys. entries f = xs @ (k, t) # ys \<and>
           normalize_key k \<notin> normalize_key ` fst ` set ys \<longrightarrow>
         map_of (entries f') (normalize_key k) = Some t) \<and>
      metadata_or_empty f' = metadata_or_empty f \<and>
      (\<forall>m. metadata f = Some m \<longrightarrow> metadata f' = Some m) \<and>
      (\<forall>p. p \<noteq> ''m/a.safetensors'' \<longrightarrow>
         files (snd (clean_safetensors_file all_ok ''m/a.safetensors'' demo)) p = files demo p)"
    by (rule clean_safetensors_file_keeps_payloads [OF h])
qed

text \<open>Scenario A of the specification.\<close>

lemma scenario_a:
  "files (snd (clean_safetensors_file all_ok ''m/a.safetensors'' demo)) ''m/a.safetensors'' =
     Some (Safetensors \<lparr>entries = [(''layer.0.weight'', t1), (''layer.1.weight'', t2)],
                        metadata = Some [(''format'', ''pt'')]\<rparr>)"
  by (simp add: run_defs demo_def shard_a_def all_ok_def)

lemma clean_False_files:
  "\<not> fst (clean_safetensors_file wr p w) \<Longrightarrow> files (snd (clean_safetensors_file wr p w)) = files w"
proof (cases "safe_open p w")
  case None
  then show ?thesis by (simp add: clean_unreadable)
next
  case (Some f)
  assume "\<not> fst (clean_safetensors_file wr p w)"
  then show ?thesis
    by (cases "wr p")
      (simp_all add: clean_readable [OF Some] Let_def rename_tensors_files split: if_splits)
qed

text \<open>
  C5. A read failure, and a write that does not complete, are reported as False: the
  function returns, nothing is raised. Whenever the result is False every file is as it
  was, and whenever it is True the path holds the whole new container and every other
  file is as it was: the one call of the writer is the rewriter's only action on the
  files, so no partially-written container is left. Directories never change.
\<close>

theorem clean_safetensors_file_all_or_nothing:
  "(safe_open p w = None \<or> wr p \<noteq> Write_ok \<longrightarrow> \<not> fst (clean_safetensors_file wr p w)) \<and>
   (\<not> fst (clean_safetensors_file wr p w) \<longrightarrow>
      files (snd (clean_safetensors_file wr p w)) = files w) \<and>
   (fst (clean_safetensors_file wr p w) \<longrightarrow>
      (\<exists>f. files w p = Some (Safetensors f) \<and> wr p = Write_ok \<and>
           files (snd (clean_safetensors_file wr p w)) =
             (files w)(p \<mapsto> Safetensors
                \<lparr>entries = fst (rename_tensors (entries f)
                                   ([], False, print (Processing_safetensors p) w)),
                 metadata = Some (metadata_or_empty f)\<rparr>))) \<and>
   dirs (snd (clean_safetensors_file wr p w)) = dirs w"
proof (intro conjI impI)
  assume h: "safe_open p w = None \<or> wr p \<noteq> Write_ok"
  show "\<not> fst (clean_safetensors_file wr p w)"
  proof
    assume "fst (clean_safetensors_file wr p w)"
    then obtain f where "files w p = Some (Safetensors f)" and "wr p = Write_ok"
      using clean_reports_iff [of wr p w] by blast
    then have "safe_open p w = Some f" and "wr p = Write_ok"
      by (simp_all add: safe_open_Some)
    with h show False by simp
  qed
next
  assume "\<not> fst (clean_safetensors_file wr p w)"
  then show "files (snd (clean_safetensors_file wr p w)) = files w"
    by (rule clean_False_files)
next
  assume r: "fst (clean_safetensors_file wr p w)"
  then obtain f where f: "files w p = Some (Safetensors f)"
      and k: "\<exists>k \<in> fst ` set (entries f). py_in marker k" and ok: "wr p = Write_ok"
    using clean_reports_iff [of wr p w] by blast
  have o: "safe_open p w = Some f" using f by (simp add: safe_open_Some)
  have "files (snd (clean_safetensors_file wr p w)) =
             (files w)(p \<mapsto> Safetensors
                \<lparr>entries = fst (rename_tensors (entries f)
                                   ([], False, print (Processing_safetensors p) w)),
                 metadata = Some (metadata_or_empty f)\<rparr>)"
    using k ok by (simp add: clean_readable [OF o] Let_def rename_tensors_flag rename_tensors_files)
  with f ok show "\<exists>f. files w p = Some (Safetensors f) \<and> wr p = Write_ok \<and>
           files (snd (clean_safetensors_file wr p w)) =
             (files w)(p \<mapsto> Safetensors
                \<lparr>entries = fst (rename_tensors (entries f)
                                   ([], False, print (Processing_safetensors p) w)),
                 metadata = Some (metadata_or_empty f)\<rparr>)"
    by blast
next
  show "dirs (snd (clean_safetensors_file wr p w)) = dirs w" by simp
qed

theorem clean_safetensors_file_all_or_nothing_witness:
  "(safe_open ''m/a.safetensors'' demo = None \<or> all_torn ''m/a.safetensors'' \<noteq> Write_ok) \<and>
   \<not> fst (clean_safetensors_file all_torn ''m/a.safetensors'' demo) \<and>
   files (snd (clean_safetensors_file all_torn ''m/a.safetensors'' demo)) = files demo"
proof -
  have h: "safe_open ''m/a.safetensors'' demo = None \<or> all_torn ''m/a.safetensors'' \<noteq> Write_ok"
    by (simp add: all_torn_def)
  note t = clean_safetensors_file_all_or_nothing [of "''m/a.safetensors''" demo all_torn]
  from t h have a: "\<not> fst (clean_safetensors_file all_torn ''m/a.safetensors'' demo)"
    by (elim conjE) (rule mp)
  from t a have b: "files (snd (clean_safetensors_file all_torn ''m/a.safetensors'' demo)) = files demo"
    by (elim conjE) (rule mp)
  from h a b show ?thesis by (intro conjI)
qed

lemma clean_writes:
  assumes "files w p = Some (Safetensors f)"
    and "\<exists>k \<in> fst ` set (entries f). py_in marker k"
    and "wr p = Write_ok"
  shows "fst (clean_safetensors_file wr p w)"
    and "\<exists>f'. files (snd (clean_safetensors_file wr p w)) p = Some (Safetensors f') \<and>
            map_of (entries f') = map_of (rev (map (\<lambda>(k, t). (normalize_key k, t)) (entries f))) \<and>
            distinct (map fst (entries f'))"
proof -
  show r: "fst (clean_safetensors_file wr p w)"
    using assms clean_reports_iff [of wr p w] by blast
  let ?es = "fst (rename_tensors (entries f) ([], False, print (Processing_safetensors p) w))"
  let ?f' = "\<lparr>entries = ?es, metadata = Some (metadata_or_empty f)\<rparr>"
  have "files (snd (clean_safetensors_file wr p w)) p = Some (Safetensors ?f')"
    using clean_rewritten [OF r] assms(1) by simp
  moreover have "map_of (entries ?f') =
      map_of (rev (map (\<lambda>(k, t). (normalize_key k, t)) (entries f)))"
    by (simp add: rename_tensors_map)
  moreover have "distinct (map fst (entries ?f'))"
    by (simp add: rename_tensors_distinct)
  ultimately show "\<exists>f'. files (snd (clean_safetensors_file wr p w)) p = Some (Safetensors f') \<and>
            map_of (entries f') = map_of (rev (map (\<lambda>(k, t). (normalize_key k, t)) (entries f))) \<and>
            distinct (map fst (entries f'))"
    by blast
qed

lemma normalize_key_differs: "normalize_key k \<noteq> k \<Longrightarrow> py_in marker k"
  using normalize_absent by blast

text \<open>
  C8. If two distinct keys of a container have the same normalized key, and the second is
  the last entry in enumeration order with that normalized key, the rewritten container
  stores the second entry's tensor under it; the run reports a rewrite, with no error.
\<close>

theorem clean_safetensors_file_last_write_wins:
  assumes "files w p = Some (Safetensors f)"
    and "entries f = xs @ (k1, a1) # ys @ (k2, a2) # zs"
    and "k1 \<noteq> k2"
    and "normalize_key k1 = normalize_key k2"
    and "normalize_key k2 \<notin> normalize_key ` fst ` set zs"
    and "wr p = Write_ok"
  shows "fst (clean_safetensors_file wr p w) \<and>
         (\<exists>f'. files (snd (clean_safetensors_file wr p w)) p = Some (Safetensors f') \<and>
               map_of (entries f') (normalize_key k2) = Some a2 \<and>
               distinct (map fst (entries f')))"
proof -
  have "normalize_key k1 \<noteq> k1 \<or> normalize_key k2 \<noteq> k2"
    using assms(3,4) by auto
  then have "py_in marker k1 \<or> py_in marker k2"
    using normalize_key_differs by blast
  then have k: "\<exists>k \<in> fst ` set (entries f). py_in marker k"
    using assms(2) by auto
  have e: "entries f = (xs @ (k1, a1) # ys) @ (k2, a2) # zs"
    using assms(2) by simp
  have "map_of (rev (map (\<lambda>(k, t). (normalize_key k, t)) (entries f))) (normalize_key k2) = Some a2"
    unfolding e using assms(5) by (rule map_of_rev_last)
  with clean_writes [where wr = wr and p = p and w = w, OF assms(1) k assms(6)] show ?thesis by metis
qed

theorem clean_safetensors_file_last_write_wins_witness:
  "files demo ''x/c.safetensors'' = Some (Safetensors shard_c) \<and>
   entries shard_c = [] @ (''x._checkpoint_wrapped_module'', t1) # [] @ (''x'', t2) # [] \<and>
   ''x._checkpoint_wrapped_module'' \<noteq> ''x'' \<and>
   normalize_key ''x._checkpoint_wrapped_module'' = normalize_key ''x'' \<and>
   normalize_key ''x'' \<notin> normalize_key ` fst ` set ([] :: (string \<times> tensor) list) \<and>
   all_ok ''x/c.safetensors'' = Write_ok \<and>
   fst (clean_safetensors_file all_ok ''x/c.safetensors'' demo) \<and>
   (\<exists>f'. files (snd (clean_safetensors_file all_ok ''x/c.safetensors'' demo)) ''x/c.safetensors''
           = Some (Safetensors f') \<and>
         map_of (entries f') (normalize_key ''x'') = Some t2 \<and>
         distinct (map fst (entries f')))"
proof -
  have 1: "files demo ''x/c.safetensors'' = Some (Safetensors shard_c)"
    by (simp add: demo_def)
  have 2: "entries shard_c = [] @ (''x._checkpoint_wrapped_module'', t1) # [] @ (''x'', t2) # []"
    by (simp add: shard_c_def)
  have 3: "''x._checkpoint_wrapped_module'' \<noteq> ''x''"
    by simp
  have 4: "normalize_key ''x._checkpoint_wrapped_module'' = normalize_key ''x''"
    by (simp add: normalize_key_def marker_def)
  have 5: "normalize_key ''x'' \<notin> normalize_key ` fst ` set ([] :: (string \<times> tensor) list)"
    by simp
  have 6: "all_ok ''x/c.safetensors'' = Write_ok"
    by (simp add: all_ok_def)
  note clean_safetensors_file_last_write_wins
    [where wr = all_ok and p = "''x/c.safetensors''" and w = demo, OF 1 2 3 4 5 6]
  with 1 2 3 4 5 6 show ?thesis by (intro conjI) simp_all
qed

text \<open>
  C10. The marker itself (and the marker twice) normalizes to the empty key, and a
  non-empty key that normalizes to the empty key is stored under the empty key (the last
  such entry wins); nothing rejects it.
\<close>

theorem clean_safetensors_file_empty_key:
  "normalize_key marker = [] \<and> normalize_key (marker @ marker) = [] \<and>
   (files w p = Some (Safetensors f) \<and> entries f = xs @ (k, a) # zs \<and> k \<noteq> [] \<and>
    normalize_key k = [] \<and> [] \<notin> normalize_key ` fst ` set zs \<and> wr p = Write_ok \<longrightarrow>
      fst (clean_safetensors_file wr p w) \<and>
      (\<exists>f'. files (snd (clean_safetensors_file wr p w)) p = Some (Safetensors f') \<and>
            map_of (entries f') [] = Some a))"
proof (intro conjI impI)
  show "normalize_key marker = []"
    by (simp add: normalize_key_def marker_def)
  show "normalize_key (marker @ marker) = []"
    by (simp add: normalize_key_def marker_def)
next
  assume h: "files w p = Some (Safetensors f) \<and> entries f = xs @ (k, a) # zs \<and> k \<noteq> [] \<and>
    normalize_key k = [] \<and> [] \<notin> normalize_key ` fst ` set zs \<and> wr p = Write_ok"
  then have "py_in marker k" using normalize_key_differs [of k] by auto
  then have k: "\<exists>k \<in> fst ` set (entries f). py_in marker k" using h by auto
  have "map_of (rev (map (\<lambda>(k, t). (normalize_key k, t)) (xs @ (k, a) # zs))) (normalize_key k) = Some a"
    using h by (intro map_of_rev_last) simp
  then have m: "map_of (rev (map (\<lambda>(k, t). (normalize_key k, t)) (entries f))) [] = Some a"
    using h by simp
  from h have f: "files w p = Some (Safetensors f)" and ok: "wr p = Write_ok" by simp_all
  show "fst (clean_safetensors_file wr p w)"
    by (rule clean_writes(1) [where wr = wr and p = p and w = w, OF f k ok])
  show "\<exists>f'. files (snd (clean_safetensors_file wr p w)) p = Some (Safetensors f') \<and>
            map_of (entries f') [] = Some a"
    using clean_writes(2) [where wr = wr and p = p and w = w, OF f k ok] m by metis
qed


theorem clean_safetensors_file_empty_key_witness:
  "files demo ''x/d.safetensors'' = Some (Safetensors shard_d) \<and>
   entries shard_d = [] @ (marker, t1) # [] \<and>
   marker \<noteq> [] \<and> normalize_key marker = [] \<and>
   [] \<notin> normalize_key ` fst ` set ([] :: (string \<times> tensor) list) \<and>
   all_ok ''x/d.safetensors'' = Write_ok \<and>
   fst (clean_safetensors_file all_ok ''x/d.safetensors'' demo) \<and>
   (\<exists>f'. files (snd (clean_safetensors_file all_ok ''x/d.safetensors'' demo)) ''x/d.safetensors''
           = Some (Safetensors f') \<and>
         map_of (entries f') [] = Some t1)"
proof -
  have h: "files demo ''x/d.safetensors'' = Some (Safetensors shard_d) \<and>
     entries shard_d = [] @ (marker, t1) # [] \<and> marker \<noteq> [] \<and> normalize_key marker = [] \<and>
     [] \<notin> normalize_key ` fst ` set ([] :: (string \<times> tensor) list) \<and>
     all_ok ''x/d.safetensors'' = Write_ok"
    by (simp add: demo_def shard_d_def all_ok_def normalize_key_def marker_def)
  note t = clean_safetensors_file_empty_key
    [where wr = all_ok and p = "''x/d.safetensors''" and w = demo and f = shard_d
       and xs = "[]" and k = marker and a = t1 and zs = "[]"]
  from t h have "fst (clean_safetensors_file all_ok ''x/d.safetensors'' demo) \<and>
   (\<exists>f'. files (snd (clean_safetensors_file all_ok ''x/d.safetensors'' demo)) ''x/d.safetensors''
           = Some (Safetensors f') \<and>
         map_of (entries f') [] = Some t1)"
    by blast
  with h show ?thesis by simp
qed



section \<open>Properties of the manifest rewriter\<close>

subsection \<open>The rename loop and the weight map\<close>

lemma rename_index_step:
  "rename_index ((key, filename) # rest) (new_weight_map, modified, w) =
     rename_index rest
       (AList.update (normalize_key key) filename new_weight_map,
        modified \<or> py_in marker key,
        if py_in marker key then print (Index_rename key (normalize_key key)) w else w)"
  using normalize_absent [of key] by (simp add: normalize_key_def Let_def)

lemma rename_index_map:
  "map_of (fst (rename_index es (acc, km, w))) =
     map_of (rev (map (\<lambda>(k, t). (normalize_key k, t)) es) @ acc)"
proof (induction es arbitrary: acc km w)
  case Nil
  then show ?case by simp
next
  case (Cons e es)
  obtain k t where e: "e = (k, t)" by (cases e)
  show ?case
    unfolding e rename_index_step Cons.IH
    by (simp add: update_conv')
qed

lemma rename_index_flag:
  "fst (snd (rename_index es (acc, km, w))) = (km \<or> (\<exists>k \<in> fst ` set es. py_in marker k))"
proof (induction es arbitrary: acc km w)
  case Nil
  then show ?case by simp
next
  case (Cons e es)
  obtain k t where e: "e = (k, t)" by (cases e)
  show ?case
    unfolding e rename_index_step Cons.IH by auto
qed

lemma rename_index_files:
  "files (snd (snd (rename_index es (acc, km, w)))) = files w"
proof (induction es arbitrary: acc km w)
  case Nil
  then show ?case by simp
next
  case (Cons e es)
  obtain k t where e: "e = (k, t)" by (cases e)
  show ?case
    unfolding e rename_index_step Cons.IH by simp
qed

lemma rename_index_dirs:
  "dirs (snd (snd (rename_index es (acc, km, w)))) = dirs w"
proof (induction es arbitrary: acc km w)
  case Nil
  then show ?case by simp
next
  case (Cons e es)
  obtain k t where e: "e = (k, t)" by (cases e)
  show ?case
    unfolding e rename_index_step Cons.IH by simp
qed

lemma rename_index_stdout:
  "\<exists>out. stdout (snd (snd (rename_index es (acc, km, w)))) = stdout w @ out"
proof (induction es arbitrary: acc km w)
  case Nil
  then show ?case by simp
next
  case (Cons e es)
  obtain k t where e: "e = (k, t)" by (cases e)
  let ?w = "if py_in marker k then print (Index_rename k (normalize_key k)) w else w"
  obtain out where out:
    "stdout (snd (snd (rename_index es (AList.update (normalize_key k) t acc, km \<or> py_in marker k, ?w))))
       = stdout ?w @ out"
    using Cons.IH by blast
  show ?case
  proof (cases "py_in marker k")
    case True
    with out have "stdout (snd (snd (rename_index (e # es) (acc, km, w))))
        = stdout w @ (Index_rename k (normalize_key k) # out)"
      unfolding e rename_index_step by simp
    then show ?thesis by blast
  next
    case False
    with out have "stdout (snd (snd (rename_index (e # es) (acc, km, w)))) = stdout w @ out"
      unfolding e rename_index_step by simp
    then show ?thesis by blast
  qed
qed

lemma rename_index_unchanged:
  "\<forall>k \<in> fst ` set es. \<not> py_in marker k \<Longrightarrow>
   snd (rename_index es (acc, km, w)) = (km, w)"
proof (induction es arbitrary: acc)
  case Nil
  then show ?case by simp
next
  case (Cons e es)
  obtain k t where e: "e = (k, t)" by (cases e)
  have "\<not> py_in marker k" using Cons.prems e by simp
  moreover have "\<forall>k \<in> fst ` set es. \<not> py_in marker k" using Cons.prems by simp
  ultimately show ?case
    unfolding e rename_index_step using Cons.IH by simp
qed

lemma rename_tensors_unchanged:
  "\<forall>k \<in> fst ` set es. \<not> py_in marker k \<Longrightarrow>
   snd (rename_tensors es (acc, km, w)) = (km, w)"
proof (induction es arbitrary: acc)
  case Nil
  then show ?case by simp
next
  case (Cons e es)
  obtain k t where e: "e = (k, t)" by (cases e)
  have "\<not> py_in marker k" using Cons.prems e by simp
  moreover have "\<forall>k \<in> fst ` set es. \<not> py_in marker k" using Cons.prems by simp
  ultimately show ?case
    unfolding e rename_tensors_step using Cons.IH by simp
qed

lemma rename_index_keys:
  "fst ` set (fst (rename_index es ([], km, w))) = normalize_key ` fst ` set es"
proof -
  have "dom (map_of (fst (rename_index es ([], km, w)))) =
        dom (map_of (rev (map (\<lambda>(k, t). (normalize_key k, t)) es)))"
    by (simp add: rename_index_map)
  then show ?thesis
    by (simp add: dom_map_of_conv_image_fst image_image case_prod_unfold)
qed

lemma rename_index_distinct:
  "distinct (map fst acc) \<Longrightarrow> distinct (map fst (fst (rename_index es (acc, km, w))))"
proof (induction es arbitrary: acc km w)
  case Nil
  then show ?case by simp
next
  case (Cons e es)
  obtain k t where e: "e = (k, t)" by (cases e)
  show ?case
    unfolding e rename_index_step
    by (rule Cons.IH) (simp add: distinct_update Cons.prems)
qed

lemma json_load_Some: "json_load p w = Some j \<longleftrightarrow> files w p = Some (JsonDoc j)"
  by (auto simp: json_load_def split: option.splits file_content.splits)

lemma json_load_exists: "json_load p w = Some j \<Longrightarrow> path_exists w p"
  by (simp add: json_load_Some path_exists_def)

lemma rewrite_weight_map_absent:
  "json_contains ''weight_map'' index_data = Inr False \<Longrightarrow>
   rewrite_weight_map index_data w = Inr (index_data, False, w)"
  by (simp add: rewrite_weight_map_def)

lemma rewrite_weight_map_present:
  assumes "map_of d ''weight_map'' = Some (JDict wm)"
  shows "rewrite_weight_map (JDict d) w =
     Inr (JDict (AList.update ''weight_map'' (JDict (fst (rename_index wm ([], False, w)))) d),
          fst (snd (rename_index wm ([], False, w))),
          snd (snd (rename_index wm ([], False, w))))"
proof -
  have "''weight_map'' \<in> fst ` set d"
    using assms by (meson domI dom_map_of_conv_image_fst [THEN equalityD1, THEN subsetD])
  then show ?thesis using assms
    by (simp add: rewrite_weight_map_def split: prod.splits)
qed

lemma rewrite_weight_map_modified:
  assumes "rewrite_weight_map index_data w = Inr (index_data', True, w')"
  shows "\<exists>d wm. index_data = JDict d \<and> map_of d ''weight_map'' = Some (JDict wm)"
proof (cases index_data)
  case (JDict d)
  show ?thesis
  proof (cases "map_of d ''weight_map''")
    case None
    then have "''weight_map'' \<notin> fst ` set d"
      by (simp add: map_of_eq_None_iff)
    then show ?thesis using assms JDict by (simp add: rewrite_weight_map_def)
  next
    case (Some v)
    then have in_d: "''weight_map'' \<in> fst ` set d"
      by (meson domI dom_map_of_conv_image_fst [THEN equalityD1, THEN subsetD])
    show ?thesis
    proof (cases v)
      case (JDict wm)
      then show ?thesis using Some \<open>index_data = JDict d\<close> by simp
    qed (use assms Some in_d \<open>index_data = JDict d\<close> in
          \<open>simp_all add: rewrite_weight_map_def\<close>)
  qed
qed (use assms in \<open>simp_all add: rewrite_weight_map_def split: if_splits bool.splits\<close>)

lemma update_missing:
  "\<not> path_exists w p \<Longrightarrow>
   update_index_json wr p w = Inr (False, print (Index_not_found p) w)"
  by (simp add: update_index_json_def)

lemma update_unreadable:
  "path_exists w p \<Longrightarrow> json_load p w = None \<Longrightarrow>
   update_index_json wr p w =
     Inr (False, print Error_reading_index (print (Processing_index p) w))"
  by (simp add: update_index_json_def)

lemma update_readable:
  assumes "json_load p w = Some j"
  shows "update_index_json wr p w =
     (case rewrite_weight_map j (print (Processing_index p) w) of
        Inl e \<Rightarrow> Inl e
      | Inr (j', modified, w2) \<Rightarrow>
          if \<not> modified then Inr (False, print No_index_entries w2)
          else (case wr p of
                  Write_ok \<Rightarrow>
                    Inr (True, print (Successfully_updated p)
                                 (w2\<lparr>files := (files w2)(p \<mapsto> JsonDoc j')\<rparr>))
                | Write_refused \<Rightarrow> Inr (False, print Error_saving_index w2)
                | Write_torn \<Rightarrow>
                    Inr (False, print Error_saving_index (w2\<lparr>files := (files w2)(p \<mapsto> Other)\<rparr>))))"
  using assms json_load_exists [OF assms]
  by (simp add: update_index_json_def json_dump_def write_file_def Let_def
      split: sum.splits prod.splits write_outcome.splits)

lemmas index_defs =
  update_index_json_def path_exists_def json_load_def rewrite_weight_map_def
  json_dump_def write_file_def marker_def Let_def

text \<open>
  C9 (as amended). For a manifest that parses to an object without the key
  \<open>weight_map\<close> (or to an array or a string in which \<open>weight_map\<close> does not occur:
  the documents on which \<open>'weight_map' in index_data\<close> is False), the manifest
  rewriter returns False, prints its two lines, and leaves every file and directory as
  it was; no write is attempted, whatever a write would have done.
\<close>

theorem update_index_json_without_weight_map:
  assumes "files w index_path = Some (JsonDoc index_data)"
    and "json_contains ''weight_map'' index_data = Inr False"
  shows "\<exists>w'. update_index_json wr index_path w = Inr (False, w') \<and>
              files w' = files w \<and> dirs w' = dirs w \<and>
              stdout w' = stdout w @ [Processing_index index_path, No_index_entries]"
proof -
  have "json_load index_path w = Some index_data"
    using assms(1) by (simp add: json_load_Some)
  then have "update_index_json wr index_path w =
      Inr (False, print No_index_entries (print (Processing_index index_path) w))"
    using assms(2) by (simp add: update_readable rewrite_weight_map_absent)
  then show ?thesis by simp
qed

theorem update_index_json_without_weight_map_witness:
  "files demo ''n/model.index.json'' = Some (JsonDoc index_n) \<and>
   json_contains ''weight_map'' index_n = Inr False \<and>
   (\<exists>w'. update_index_json all_ok ''n/model.index.json'' demo = Inr (False, w') \<and>
         files w' = files demo \<and> dirs w' = dirs demo \<and>
         stdout w' = stdout demo @ [Processing_index ''n/model.index.json'', No_index_entries])"
proof -
  have 1: "files demo ''n/model.index.json'' = Some (JsonDoc index_n)"
    by (simp add: demo_def)
  have 2: "json_contains ''weight_map'' index_n = Inr False"
    by (simp add: index_n_def)
  note t = update_index_json_without_weight_map
    [where wr = all_ok and index_path = "''n/model.index.json''" and w = demo, OF 1 2]
  from 1 2 t show ?thesis by (intro conjI)
qed

text \<open>
  A manifest that parses to a number, a boolean or \<open>null\<close> has no fields at all, and
  the membership test of line 103 raises \<open>TypeError\<close> on it, outside any \<open>try\<close>.
\<close>

lemma json_contains_dict:
  "json_contains key (JDict d) = Inr False \<longleftrightarrow> key \<notin> fst ` set d"
  by simp

lemma update_index_json_scalar:
  assumes "files w p = Some (JsonDoc j)" and "j = JNull \<or> (\<exists>b. j = JBool b) \<or> (\<exists>i. j = JInt i) \<or> (\<exists>x. j = JFloat x)"
  shows "update_index_json wr p w = Inl (TypeError, print (Processing_index p) w)"
proof -
  have "json_load p w = Some j" using assms(1) by (simp add: json_load_Some)
  then show ?thesis using assms(2)
    by (auto simp: update_readable rewrite_weight_map_def)
qed

text \<open>
  C9 as stated fails: the manifest file \<open>null\<close> parses and has no \<open>weight_map\<close>
  field, and the manifest rewriter does not return False on it but raises.
\<close>

theorem update_index_json_null:
  "files demo ''z/model.index.json'' = Some (JsonDoc JNull) \<and>
   update_index_json all_ok ''z/model.index.json'' demo =
     Inl (TypeError, print (Processing_index ''z/model.index.json'') demo)"
proof (rule conjI)
  show f: "files demo ''z/model.index.json'' = Some (JsonDoc JNull)"
    by (simp add: demo_def)
  then show "update_index_json all_ok ''z/model.index.json'' demo =
     Inl (TypeError, print (Processing_index ''z/model.index.json'') demo)"
    by (rule update_index_json_scalar) simp
qed

text \<open>
  C7. A key without the marker is its own normalized form; on a container none of whose
  keys holds the marker the shard rewriter returns False, and on a manifest none of
  whose weight-map keys holds the marker the manifest rewriter returns False; in both
  cases two lines are printed, every file and directory is as before, and nothing is
  raised.
\<close>

theorem unmarked_keys_no_op:
  "(\<not> py_in marker k \<longrightarrow> normalize_key k = k) \<and>
   (files w p = Some (Safetensors f) \<and> (\<forall>k \<in> fst ` set (entries f). \<not> py_in marker k) \<longrightarrow>
      (\<exists>w'. clean_safetensors_file wr p w = (False, w') \<and> files w' = files w \<and>
            dirs w' = dirs w \<and>
            stdout w' = stdout w @ [Processing_safetensors p, No_keys_needed])) \<and>
   (files w index_path = Some (JsonDoc (JDict d)) \<and> map_of d ''weight_map'' = Some (JDict wm) \<and>
    (\<forall>k \<in> fst ` set wm. \<not> py_in marker k) \<longrightarrow>
      (\<exists>w'. update_index_json wr index_path w = Inr (False, w') \<and> files w' = files w \<and>
            dirs w' = dirs w \<and>
            stdout w' = stdout w @ [Processing_index index_path, No_index_entries]))"
proof (intro conjI impI)
  assume "\<not> py_in marker k"
  then show "normalize_key k = k" by (rule normalize_absent)
next
  assume h: "files w p = Some (Safetensors f) \<and> (\<forall>k \<in> fst ` set (entries f). \<not> py_in marker k)"
  then have o: "safe_open p w = Some f" by (simp add: safe_open_Some)
  have "snd (rename_tensors (entries f) ([], False, print (Processing_safetensors p) w)) =
        (False, print (Processing_safetensors p) w)"
    using h by (intro rename_tensors_unchanged) simp
  then have "clean_safetensors_file wr p w =
      (False, print No_keys_needed (print (Processing_safetensors p) w))"
    by (simp add: clean_readable [OF o] Let_def)
  then show "\<exists>w'. clean_safetensors_file wr p w = (False, w') \<and> files w' = files w \<and>
            dirs w' = dirs w \<and>
            stdout w' = stdout w @ [Processing_safetensors p, No_keys_needed]"
    by simp
next
  assume h: "files w index_path = Some (JsonDoc (JDict d)) \<and> map_of d ''weight_map'' = Some (JDict wm) \<and>
    (\<forall>k \<in> fst ` set wm. \<not> py_in marker k)"
  then have l: "json_load index_path w = Some (JDict d)" by (simp add: json_load_Some)
  have m: "map_of d ''weight_map'' = Some (JDict wm)" using h by simp
  have "snd (rename_index wm ([], False, print (Processing_index index_path) w)) =
        (False, print (Processing_index index_path) w)"
    using h by (intro rename_index_unchanged) simp
  then have "update_index_json wr index_path w =
      Inr (False, print No_index_entries (print (Processing_index index_path) w))"
    by (simp add: update_readable [OF l] rewrite_weight_map_present [OF m])
  then show "\<exists>w'. update_index_json wr index_path w = Inr (False, w') \<and> files w' = files w \<and>
            dirs w' = dirs w \<and>
            stdout w' = stdout w @ [Processing_index index_path, No_index_entries]"
    by simp
qed

theorem unmarked_keys_no_op_witness:
  "\<not> py_in marker ''a.weight'' \<and> normalize_key ''a.weight'' = ''a.weight'' \<and>
   files demo ''m/b.safetensors'' = Some (Safetensors shard_b) \<and>
   (\<exists>w'. clean_safetensors_file all_ok ''m/b.safetensors'' demo = (False, w') \<and>
         files w' = files demo \<and> dirs w' = dirs demo \<and>
         stdout w' = stdout demo @ [Processing_safetensors ''m/b.safetensors'', No_keys_needed]) \<and>
   files demo ''q/model.index.json'' = Some (JsonDoc index_q) \<and>
   (\<exists>w'. update_index_json all_ok ''q/model.index.json'' demo = Inr (False, w') \<and>
         files w' = files demo \<and> dirs w' = dirs demo \<and>
         stdout w' = stdout demo @ [Processing_index ''q/model.index.json'', No_index_entries])"
proof -
  let ?wm = "[(''a.weight'', JStr ''b.safetensors'')]"
  let ?d = "[(''weight_map'', JDict ?wm)]"
  have k: "\<not> py_in marker ''a.weight''"
    by (simp add: marker_def)
  have f: "files demo ''m/b.safetensors'' = Some (Safetensors shard_b)"
    by (simp add: demo_def)
  have fk: "\<forall>k \<in> fst ` set (entries shard_b). \<not> py_in marker k"
    by (simp add: shard_b_def marker_def)
  have j: "files demo ''q/model.index.json'' = Some (JsonDoc (JDict ?d))"
    by (simp add: demo_def index_q_def)
  have m: "map_of ?d ''weight_map'' = Some (JDict ?wm)"
    by simp
  have jk: "\<forall>k \<in> fst ` set ?wm. \<not> py_in marker k"
    by (simp add: marker_def)
  note t = unmarked_keys_no_op
    [where k = "''a.weight''" and w = demo and p = "''m/b.safetensors''" and f = shard_b
       and wr = all_ok and index_path = "''q/model.index.json''" and d = ?d and wm = ?wm]
  from t k have 1: "normalize_key ''a.weight'' = ''a.weight''"
    by (elim conjE) (rule mp)
  from t f fk have 2: "\<exists>w'. clean_safetensors_file all_ok ''m/b.safetensors'' demo = (False, w') \<and>
         files w' = files demo \<and> dirs w' = dirs demo \<and>
         stdout w' = stdout demo @ [Processing_safetensors ''m/b.safetensors'', No_keys_needed]"
    by (elim conjE) (erule mp, intro conjI)
  from t j m jk have 3: "\<exists>w'. update_index_json all_ok ''q/model.index.json'' demo = Inr (False, w') \<and>
         files w' = files demo \<and> dirs w' = dirs demo \<and>
         stdout w' = stdout demo @ [Processing_index ''q/model.index.json'', No_index_entries]"
    by (elim conjE) (erule mp, intro conjI)
  have j': "files demo ''q/model.index.json'' = Some (JsonDoc index_q)"
    by (simp add: demo_def)
  from k 1 f 2 j' 3 show ?thesis by (intro conjI)
qed

lemma update_keys_present:
  "k \<in> fst ` set al \<Longrightarrow> map fst (AList.update k v al) = map fst al"
  by (simp add: update_keys)

lemma update_index_json_True:
  assumes "update_index_json wr p w = Inr (True, w')"
  shows "\<exists>d wm. files w p = Some (JsonDoc (JDict d)) \<and>
           map_of d ''weight_map'' = Some (JDict wm) \<and>
           wr p = Write_ok \<and>
           w' = print (Successfully_updated p)
                  ((snd (snd (rename_index wm ([], False, print (Processing_index p) w))))
                     \<lparr>files := (files w)(p \<mapsto> JsonDoc (JDict (AList.update ''weight_map''
                        (JDict (fst (rename_index wm ([], False, print (Processing_index p) w)))) d)))\<rparr>)"
proof (cases "path_exists w p")
  case False
  then show ?thesis using assms by (simp add: update_missing)
next
  case True
  show ?thesis
  proof (cases "json_load p w")
    case None
    then show ?thesis using assms True by (simp add: update_unreadable)
  next
    case (Some j)
    let ?w1 = "print (Processing_index p) w"
    show ?thesis
    proof (cases "rewrite_weight_map j ?w1")
      case (Inl e)
      then show ?thesis using assms by (simp add: update_readable [OF Some])
    next
      case (Inr r)
      obtain j' modified w2 where r: "r = (j', modified, w2)" by (cases r)
      have modified: modified
        using assms Inr r by (cases modified) (simp_all add: update_readable [OF Some])
      then obtain d wm where j: "j = JDict d" and wm: "map_of d ''weight_map'' = Some (JDict wm)"
        using rewrite_weight_map_modified [of j ?w1 j' w2] Inr r by auto
      have eq: "r = (JDict (AList.update ''weight_map'' (JDict (fst (rename_index wm ([], False, ?w1)))) d),
                fst (snd (rename_index wm ([], False, ?w1))),
                snd (snd (rename_index wm ([], False, ?w1))))"
        using Inr rewrite_weight_map_present [OF wm, of ?w1] j by simp
      have ok: "wr p = Write_ok"
        using assms Inr r modified by (cases "wr p") (simp_all add: update_readable [OF Some])
      have j': "j' = JDict (AList.update ''weight_map'' (JDict (fst (rename_index wm ([], False, ?w1)))) d)"
        and w2: "w2 = snd (snd (rename_index wm ([], False, ?w1)))"
        using eq r by (simp_all add: prod_eq_iff)
      have "rewrite_weight_map j ?w1 = Inr (j', True, w2)"
        using Inr r modified by simp
      then have "update_index_json wr p w =
          Inr (True, print (Successfully_updated p) (w2\<lparr>files := (files w2)(p \<mapsto> JsonDoc j')\<rparr>))"
        using ok by (simp add: update_readable [OF Some])
      then have "w' = print (Successfully_updated p) (w2\<lparr>files := (files w2)(p \<mapsto> JsonDoc j')\<rparr>)"
        using assms by simp
      moreover have "files w2 = files w"
        unfolding w2 by (simp add: rename_index_files)
      ultimately have "w' = print (Successfully_updated p)
                  ((snd (snd (rename_index wm ([], False, ?w1))))
                     \<lparr>files := (files w)(p \<mapsto> JsonDoc (JDict (AList.update ''weight_map''
                        (JDict (fst (rename_index wm ([], False, ?w1)))) d)))\<rparr>)"
        using j' w2 by simp
      moreover have "files w p = Some (JsonDoc (JDict d))"
        using Some j by (simp add: json_load_Some)
      ultimately show ?thesis using wm ok by blast
    qed
  qed
qed

text \<open>
  C4 (as amended). When the manifest rewriter reports a rewrite, the document at the
  path is the original object with the weight map replaced in place: the top-level keys
  and their order are the same, every other field has its value, and no other file
  changes. The new weight map has the normalized original keys, each once; every
  filename in it is the filename of an original key with that normalized form; and an
  original entry keeps its filename under its normalized key unless a later entry of the
  map normalizes to the same key.
\<close>

theorem update_index_json_renames_keys:
  assumes "update_index_json wr index_path w = Inr (True, w')"
  shows "\<exists>d wm wm'. files w index_path = Some (JsonDoc (JDict d)) \<and>
           map_of d ''weight_map'' = Some (JDict wm) \<and>
           files w' index_path = Some (JsonDoc (JDict (AList.update ''weight_map'' (JDict wm') d))) \<and>
           fst ` set wm' = normalize_key ` fst ` set wm \<and>
           distinct (map fst wm') \<and>
           (\<forall>k' v. map_of wm' k' = Some v \<longrightarrow> (\<exists>k. (k, v) \<in> set wm \<and> normalize_key k = k')) \<and>
           (\<forall>xs k v ys. wm = xs @ (k, v) # ys \<and> normalize_key k \<notin> normalize_key ` fst ` set ys \<longrightarrow>
                 map_of wm' (normalize_key k) = Some v) \<and>
           map fst (AList.update ''weight_map'' (JDict wm') d) = map fst d \<and>
           (\<forall>field. field \<noteq> ''weight_map'' \<longrightarrow>
                 map_of (AList.update ''weight_map'' (JDict wm') d) field = map_of d field) \<and>
           (\<forall>q. q \<noteq> index_path \<longrightarrow> files w' q = files w q)"
proof -
  let ?w1 = "print (Processing_index index_path) w"
  obtain d wm where d: "files w index_path = Some (JsonDoc (JDict d))"
    and wm: "map_of d ''weight_map'' = Some (JDict wm)"
    and w': "w' = print (Successfully_updated index_path)
                  ((snd (snd (rename_index wm ([], False, ?w1))))
                     \<lparr>files := (files w)(index_path \<mapsto> JsonDoc (JDict (AList.update ''weight_map''
                        (JDict (fst (rename_index wm ([], False, ?w1)))) d)))\<rparr>)"
    using update_index_json_True [OF assms] by blast
  let ?wm' = "fst (rename_index wm ([], False, ?w1))"
  have m: "map_of ?wm' = map_of (rev (map (\<lambda>(k, t). (normalize_key k, t)) wm))"
    by (simp add: rename_index_map)
  have 0: "files w' index_path = Some (JsonDoc (JDict (AList.update ''weight_map'' (JDict ?wm') d)))"
    using w' by simp
  have 1: "fst ` set ?wm' = normalize_key ` fst ` set wm"
    by (rule rename_index_keys)
  have 2: "distinct (map fst ?wm')"
    by (simp add: rename_index_distinct)
  have 3: "\<forall>k' v. map_of ?wm' k' = Some v \<longrightarrow> (\<exists>k. (k, v) \<in> set wm \<and> normalize_key k = k')"
    by (auto simp: m dest: map_of_rev_origin)
  have 4: "\<forall>xs k v ys. wm = xs @ (k, v) # ys \<and> normalize_key k \<notin> normalize_key ` fst ` set ys \<longrightarrow>
                 map_of ?wm' (normalize_key k) = Some v"
  proof (intro allI impI)
    fix xs k v ys
    assume a: "wm = xs @ (k, v) # ys \<and> normalize_key k \<notin> normalize_key ` fst ` set ys"
    have "map_of ?wm' (normalize_key k) =
          map_of (rev (map (\<lambda>(k, t). (normalize_key k, t)) (xs @ (k, v) # ys))) (normalize_key k)"
      using a m by simp
    then show "map_of ?wm' (normalize_key k) = Some v"
      using a map_of_rev_last [of k ys xs v] by simp
  qed
  have in_d: "''weight_map'' \<in> fst ` set d"
    using wm by (meson domI dom_map_of_conv_image_fst [THEN equalityD1, THEN subsetD])
  have 5: "map fst (AList.update ''weight_map'' (JDict ?wm') d) = map fst d"
    using in_d by (rule update_keys_present)
  have 6: "\<forall>field. field \<noteq> ''weight_map'' \<longrightarrow>
                 map_of (AList.update ''weight_map'' (JDict ?wm') d) field = map_of d field"
    by (simp add: update_conv')
  have 7: "\<forall>q. q \<noteq> index_path \<longrightarrow> files w' q = files w q"
    using w' by simp
  from d wm 0 1 2 3 4 5 6 7 show ?thesis by blast
qed

theorem update_index_json_renames_keys_witness:
  "update_index_json all_ok ''m/model.index.json'' demo =
     Inr (True, index_world (update_index_json all_ok ''m/model.index.json'' demo)) \<and>
   (\<exists>d wm wm'. files demo ''m/model.index.json'' = Some (JsonDoc (JDict d)) \<and>
      map_of d ''weight_map'' = Some (JDict wm) \<and>
      files (index_world (update_index_json all_ok ''m/model.index.json'' demo)) ''m/model.index.json''
        = Some (JsonDoc (JDict (AList.update ''weight_map'' (JDict wm') d))) \<and>
      fst ` set wm' = normalize_key ` fst ` set wm \<and>
      distinct (map fst wm') \<and>
      (\<forall>k' v. map_of wm' k' = Some v \<longrightarrow> (\<exists>k. (k, v) \<in> set wm \<and> normalize_key k = k')) \<and>
      (\<forall>xs k v ys. wm = xs @ (k, v) # ys \<and> normalize_key k \<notin> normalize_key ` fst ` set ys \<longrightarrow>
            map_of wm' (normalize_key k) = Some v) \<and>
      map fst (AList.update ''weight_map'' (JDict wm') d) = map fst d \<and>
      (\<forall>field. field \<noteq> ''weight_map'' \<longrightarrow>
            map_of (AList.update ''weight_map'' (JDict wm') d) field = map_of d field) \<and>
      (\<forall>q. q \<noteq> ''m/model.index.json'' \<longrightarrow>
            files (index_world (update_index_json all_ok ''m/model.index.json'' demo)) q
              = files demo q))"
proof (rule conjI)
  show h: "update_index_json all_ok ''m/model.index.json'' demo =
     Inr (True, index_world (update_index_json all_ok ''m/model.index.json'' demo))"
    by (simp add: index_defs demo_def index_m_def all_ok_def)
  show "\<exists>d wm wm'. files demo ''m/model.index.json'' = Some (JsonDoc (JDict d)) \<and>
      map_of d ''weight_map'' = Some (JDict wm) \<and>
      files (index_world (update_index_json all_ok ''m/model.index.json'' demo)) ''m/model.index.json''
        = Some (JsonDoc (JDict (AList.update ''weight_map'' (JDict wm') d))) \<and>
      fst ` set wm' = normalize_key ` fst ` set wm \<and>
      distinct (map fst wm') \<and>
      (\<forall>k' v. map_of wm' k' = Some v \<longrightarrow> (\<exists>k. (k, v) \<in> set wm \<and> normalize_key k = k')) \<and>
      (\<forall>xs k v ys. wm = xs @ (k, v) # ys \<and> normalize_key k \<notin> normalize_key ` fst ` set ys \<longrightarrow>
            map_of wm' (normalize_key k) = Some v) \<and>
      map fst (AList.update ''weight_map'' (JDict wm') d) = map fst d \<and>
      (\<forall>field. field \<noteq> ''weight_map'' \<longrightarrow>
            map_of (AList.update ''weight_map'' (JDict wm') d) field = map_of d field) \<and>
      (\<forall>q. q \<noteq> ''m/model.index.json'' \<longrightarrow>
            files (index_world (update_index_json all_ok ''m/model.index.json'' demo)) q
              = files demo q)"
    by (rule update_index_json_renames_keys [OF h])
qed

text \<open>Scenario C of the specification, with a second field and two more keys.\<close>

lemma scenario_c:
  "files (index_world (update_index_json all_ok ''m/model.index.json'' demo)) ''m/model.index.json'' =
     Some (JsonDoc (JDict [(''metadata'', JDict [(''total_size'', JInt 10)]),
                    (''weight_map'',
                     JDict [(''layer.0.weight'', JStr ''a.safetensors''),
                            (''layer.1.weight'', JStr ''a.safetensors''),
                            (''a.weight'', JStr ''b.safetensors'')])]))"
  by (simp add: index_defs demo_def index_m_def all_ok_def)

text \<open>
  C4 as stated fails: the key \<open>x._checkpoint_wrapped_module\<close> of this manifest is mapped
  to \<open>c.safetensors\<close>; after the rewrite its normalized form \<open>x\<close> is mapped to
  \<open>d.safetensors\<close>, the filename of the later key \<open>x\<close>.
\<close>

theorem update_index_json_collision:
  "map_of (weight_map_at demo ''x/model.index.json'') ''x._checkpoint_wrapped_module''
     = Some (JStr ''c.safetensors'') \<and>
   update_index_json all_ok ''x/model.index.json'' demo =
     Inr (True, index_world (update_index_json all_ok ''x/model.index.json'' demo)) \<and>
   map_of (weight_map_at (index_world (update_index_json all_ok ''x/model.index.json'' demo))
             ''x/model.index.json'')
     (normalize_key ''x._checkpoint_wrapped_module'') = Some (JStr ''d.safetensors'')"
  by (simp add: index_defs demo_def index_x_def all_ok_def weight_map_at_def normalize_key_def)


section \<open>Properties of directory mode\<close>

lemma rewrite_weight_map_stdout:
  assumes "rewrite_weight_map j w = Inl (e, w') \<or> rewrite_weight_map j w = Inr (j', m, w')"
  shows "\<exists>out. stdout w' = stdout w @ out"
proof -
  have grow: "\<exists>out. stdout w'' = stdout w @ out"
    if "rename_index items ([], False, w) = (a, b, w'')" for items a b w''
    using rename_index_stdout [of items "[]" False w] that by simp
  have same: "\<exists>out. stdout w = stdout w @ out" by simp
  show ?thesis
    using assms grow same
    by (fastforce simp: rewrite_weight_map_def
        split: sum.splits bool.splits prod.splits if_splits)
qed

lemma update_stdout:
  "\<exists>out. stdout (index_world (update_index_json wr p w)) = stdout w @ out \<and>
         (path_exists w p \<longrightarrow> Processing_index p \<in> set out)"
proof (cases "path_exists w p")
  case False
  then show ?thesis by (simp add: update_missing)
next
  case True
  show ?thesis
  proof (cases "json_load p w")
    case None
    then show ?thesis using True by (simp add: update_unreadable)
  next
    case (Some j)
    let ?w1 = "print (Processing_index p) w"
    show ?thesis
    proof (cases "rewrite_weight_map j ?w1")
      case (Inl ew)
      obtain e w' where ew: "ew = (e, w')" by (cases ew)
      obtain out where "stdout w' = stdout ?w1 @ out"
        using rewrite_weight_map_stdout [of j ?w1 e w'] Inl ew by blast
      then have "stdout w' = stdout w @ (Processing_index p # out)" by simp
      moreover have "index_world (update_index_json wr p w) = w'"
        using Inl ew by (simp add: update_readable [OF Some])
      ultimately show ?thesis by auto
    next
      case (Inr r)
      obtain j' modified w2 where r: "r = (j', modified, w2)" by (cases r)
      obtain out where "stdout w2 = stdout ?w1 @ out"
        using rewrite_weight_map_stdout [of j ?w1 _ w2 j' modified] Inr r by blast
      then have w2: "stdout w2 = stdout w @ (Processing_index p # out)" by simp
      have "\<exists>m. stdout (index_world (update_index_json wr p w)) = stdout w2 @ [m]"
        using Inr r
        by (cases "wr p") (simp_all add: update_readable [OF Some])
      then obtain m where "stdout (index_world (update_index_json wr p w))
          = stdout w @ (Processing_index p # out @ [m])"
        using w2 by auto
      then show ?thesis by auto
    qed
  qed
qed

lemma clean_each_step:
  "clean_each wr (p # ps) (am, w) =
     clean_each wr ps (am \<or> fst (clean_safetensors_file wr p w),
                       snd (clean_safetensors_file wr p w))"
  by (cases "clean_safetensors_file wr p w") (auto split: bool.splits)


lemma clean_each_exists [simp]:
  "path_exists (snd (clean_each wr ps (am, w))) q = path_exists w q"
proof (induction ps arbitrary: am w)
  case Nil
  then show ?case by simp
next
  case (Cons p ps)
  then show ?case
    unfolding clean_each_step by simp
qed






lemma clean_each_dirs [simp]: "dirs (snd (clean_each wr ps (am, w))) = dirs w"
proof (induction ps arbitrary: am w)
  case Nil
  then show ?case by simp
next
  case (Cons p ps)
  then show ?case unfolding clean_each_step by simp
qed

lemma update_announces:
  "\<exists>out. stdout (index_world (update_index_json wr p w)) = stdout w @ out \<and>
         (Processing_index p \<in> set out \<or> Index_not_found p \<in> set out)"
proof (cases "path_exists w p")
  case True
  then show ?thesis using update_stdout [of wr p w] by blast
next
  case False
  then show ?thesis by (simp add: update_missing)
qed



















lemma index_of_examples:
  "index_of ''.'' = ''model.index.json''"
  "index_of '''' = ''model.index.json''"
  "index_of ''/'' = ''/model.index.json''"
  "index_of ''m/'' = ''m/model.index.json''"
  "index_of ''./m//x'' = ''m/x/model.index.json''"
  by (simp_all add: index_of_def Path_def splitroot_def truediv_def path_str_def)


text \<open>
  Scenario D of the specification: of two containers one has a wrapped key; it is
  rewritten, the other is left alone, and the manifest is rewritten.
\<close>

lemma scenario_d:
  "files (world_after (process_directory all_ok ''m'' demo)) ''m/model.index.json'' =
     Some (JsonDoc (JDict [(''metadata'', JDict [(''total_size'', JInt 10)]),
                    (''weight_map'',
                     JDict [(''layer.0.weight'', JStr ''a.safetensors''),
                            (''layer.1.weight'', JStr ''a.safetensors''),
                            (''a.weight'', JStr ''b.safetensors'')])])) \<and>
   files (world_after (process_directory all_ok ''m'' demo)) ''m/a.safetensors'' =
     Some (Safetensors \<lparr>entries = [(''layer.0.weight'', t1), (''layer.1.weight'', t2)],
                        metadata = Some [(''format'', ''pt'')]\<rparr>) \<and>
   files (world_after (process_directory all_ok ''m'' demo)) ''m/b.safetensors'' =
     Some (Safetensors shard_b)"
  by (simp add: process_directory_def glob_safetensors_def Path_def splitroot_def path_str_def
      child_def truediv_def suffix_to_prefix run_defs index_defs demo_def shard_a_def
      shard_b_def index_m_def all_ok_def)

end
